theory Spec2Isabelle
  imports Main
begin

section \<open>Identifiers\<close>

text \<open>
  \<^verbatim>\<open>struct NodeId { int trajectory_id; int node_index; }\<close>.  \<^verbatim>\<open>SubmapId\<close> is the same
  struct with the second field called \<^verbatim>\<open>submap_index\<close>; \<^verbatim>\<open>GetIndex\<close> reads that field.
  The template parameter \<^verbatim>\<open>IdType\<close> of \<^verbatim>\<open>MapById\<close> is modelled by \<open>NodeId\<close>.
  Values of the C++ type \<^verbatim>\<open>int\<close> are integers up to \<open>INT_MAX\<close>; the only arithmetic
  of the container is the \<^verbatim>\<open>+ 1\<close> of \<^verbatim>\<open>Append\<close>, whose signed overflow is written out
  there.
\<close>

record NodeId =
  trajectory_id :: int
  node_index :: int

definition GetIndex :: "NodeId \<Rightarrow> int" where
  "GetIndex i = node_index i"

text \<open>\<^verbatim>\<open>operator<\<close>: the lexicographic order of the pair of fields.\<close>

definition NodeId_less :: "NodeId \<Rightarrow> NodeId \<Rightarrow> bool" where
  "NodeId_less a b =
     (trajectory_id a < trajectory_id b \<or>
      (trajectory_id a = trajectory_id b \<and> node_index a < node_index b))"

definition INT_MAX :: int where
  "INT_MAX = 2147483647"

section \<open>Failures\<close>

text \<open>
  \<open>CHECK_failed\<close>: a glog \<^verbatim>\<open>CHECK\<close> that does not hold (the process aborts).
  \<open>out_of_range\<close>: the exception \<^verbatim>\<open>std::out_of_range\<close> of \<^verbatim>\<open>std::map::at\<close>.
  \<open>undefined_behaviour\<close>: signed overflow, or reading through an end iterator.
\<close>

datatype failure = CHECK_failed | out_of_range | undefined_behaviour

text \<open>
  A call aborts when it ends in a failed \<^verbatim>\<open>CHECK\<close>.  A call that throws
  \<^verbatim>\<open>std::out_of_range\<close> returns no value either, but it does not abort: the exception
  leaves the call and a \<^verbatim>\<open>try\<close>/\<^verbatim>\<open>catch\<close> of the caller handles it.
\<close>

definition aborts :: "failure + 'a \<Rightarrow> bool" where
  "aborts r = (r = Inl CHECK_failed)"

section \<open>\<^verbatim>\<open>std::map<int, V>\<close> as a list of entries in key order\<close>

text \<open>
  An iterator of the map is the rest of the entry list from its position on; \<^verbatim>\<open>end()\<close>
  is the empty rest.
\<close>

type_synonym 'v std_map = "(int \<times> 'v) list"

definition map_find :: "int \<Rightarrow> 'v std_map \<Rightarrow> 'v std_map" where
  "map_find k m = dropWhile (\<lambda>e. fst e \<noteq> k) m"

definition map_at :: "int \<Rightarrow> 'v std_map \<Rightarrow> failure + 'v" where
  "map_at k m = (case map_find k m of [] \<Rightarrow> Inl out_of_range | e # _ \<Rightarrow> Inr (snd e))"

text \<open>Storing under a key: a new entry at its place in the key order, or the entry
  of that key overwritten (a write through a reference into the map).\<close>

fun map_put :: "int \<Rightarrow> 'v \<Rightarrow> 'v std_map \<Rightarrow> 'v std_map" where
  "map_put k v [] = [(k, v)]"
| "map_put k v (e # m) =
     (if k < fst e then (k, v) # e # m
      else if k = fst e then (k, v) # m
      else e # map_put k v m)"

text \<open>\<^verbatim>\<open>emplace\<close> stores nothing when the key is present; the flag says whether it stored.\<close>

definition map_emplace :: "int \<Rightarrow> 'v \<Rightarrow> 'v std_map \<Rightarrow> 'v std_map \<times> bool" where
  "map_emplace k v m = (if map_find k m = [] then (map_put k v m, True) else (m, False))"

text \<open>\<^verbatim>\<open>erase(find(k))\<close>, for a key that was found.\<close>

definition map_erase :: "int \<Rightarrow> 'v std_map \<Rightarrow> 'v std_map" where
  "map_erase k m = takeWhile (\<lambda>e. fst e \<noteq> k) m @ tl (map_find k m)"

text \<open>The class invariant of \<^verbatim>\<open>std::map\<close>: keys strictly ascending.\<close>

definition sorted_keys :: "'v std_map \<Rightarrow> bool" where
  "sorted_keys m = sorted_wrt (<) (map fst m)"

section \<open>The container\<close>

record 'd MapByIndex =
  can_append :: bool
  data :: "'d std_map"

record 'd MapById =
  trajectories :: "'d MapByIndex std_map"

definition MapByIndex_default :: "'d MapByIndex" where
  "MapByIndex_default = \<lparr>can_append = True, data = []\<rparr>"

definition MapById_empty :: "'d MapById" where
  "MapById_empty = \<lparr>trajectories = []\<rparr>"

text \<open>\<^verbatim>\<open>trajectories_[k]\<close>: the entry of \<open>k\<close>, default-constructed when there is none.
  The operations below write the changed entry back with \<open>map_put\<close>.\<close>

definition map_subscript :: "int \<Rightarrow> 'd MapByIndex std_map \<Rightarrow> 'd MapByIndex" where
  "map_subscript k m = (case map_find k m of [] \<Rightarrow> MapByIndex_default | e # _ \<Rightarrow> snd e)"

definition Append :: "int \<Rightarrow> 'd \<Rightarrow> 'd MapById \<Rightarrow> failure + (NodeId \<times> 'd MapById)" where
  "Append tid d m =
     (if \<not> 0 \<le> tid then Inl CHECK_failed
      else let trajectory = map_subscript tid (trajectories m) in
        if \<not> can_append trajectory then Inl CHECK_failed
        else if data trajectory \<noteq> [] \<and> INT_MAX \<le> fst (last (data trajectory))
          then Inl undefined_behaviour
        else
          let index = (if data trajectory = [] then 0 else fst (last (data trajectory)) + 1);
              trajectory' = trajectory\<lparr>data := fst (map_emplace index d (data trajectory))\<rparr>
          in Inr (\<lparr>trajectory_id = tid, node_index = index\<rparr>,
                  m\<lparr>trajectories := map_put tid trajectory' (trajectories m)\<rparr>))"

definition Insert :: "NodeId \<Rightarrow> 'd \<Rightarrow> 'd MapById \<Rightarrow> failure + 'd MapById" where
  "Insert i d m =
     (let trajectory = (map_subscript (trajectory_id i) (trajectories m))\<lparr>can_append := False\<rparr>;
          r = map_emplace (GetIndex i) d (data trajectory)
      in if \<not> snd r then Inl CHECK_failed
         else Inr (m\<lparr>trajectories :=
                      map_put (trajectory_id i) (trajectory\<lparr>data := fst r\<rparr>) (trajectories m)\<rparr>))"

definition Trim :: "NodeId \<Rightarrow> 'd MapById \<Rightarrow> failure + 'd MapById" where
  "Trim i m =
     (case map_at (trajectory_id i) (trajectories m) of
        Inl e \<Rightarrow> Inl e
      | Inr trajectory \<Rightarrow>
          let it = map_find (GetIndex i) (data trajectory) in
          if it = [] then Inl CHECK_failed
          else
            let trajectory' =
                  (if tl it = [] then trajectory\<lparr>can_append := False\<rparr> else trajectory)
            in Inr (m\<lparr>trajectories :=
                        map_put (trajectory_id i)
                          (trajectory'\<lparr>data := map_erase (GetIndex i) (data trajectory')\<rparr>)
                          (trajectories m)\<rparr>))"

definition at :: "NodeId \<Rightarrow> 'd MapById \<Rightarrow> failure + 'd" where
  "at i m =
     (case map_at (trajectory_id i) (trajectories m) of
        Inl e \<Rightarrow> Inl e
      | Inr trajectory \<Rightarrow> map_at (GetIndex i) (data trajectory))"

section \<open>The iterator\<close>

text \<open>
  \<^verbatim>\<open>ConstIterator\<close> holds two map iterators with their ends.  With an iterator
  modelled as the rest of the entry list, \<^verbatim>\<open>end_trajectory_\<close> and \<^verbatim>\<open>end_data_\<close> are the
  empty list, and \<^verbatim>\<open>current_trajectory_->first\<close> is the key of the head.
\<close>

record 'd ConstIterator =
  current_trajectory :: "'d MapByIndex std_map"
  current_data :: "'d std_map"

text \<open>The \<^verbatim>\<open>while\<close> loop of \<^verbatim>\<open>AdvanceToValidDataIterator\<close>.\<close>

fun advance_loop :: "'d MapByIndex std_map \<Rightarrow> 'd std_map \<Rightarrow> 'd ConstIterator" where
  "advance_loop (t # trs) [] =
     (case trs of
        [] \<Rightarrow> \<lparr>current_trajectory = [], current_data = []\<rparr>
      | t' # _ \<Rightarrow> advance_loop trs (data (snd t')))"
| "advance_loop trs ds = \<lparr>current_trajectory = trs, current_data = ds\<rparr>"

definition AdvanceToValidDataIterator :: "'d ConstIterator \<Rightarrow> failure + 'd ConstIterator" where
  "AdvanceToValidDataIterator it =
     (if current_trajectory it = [] then Inl CHECK_failed
      else Inr (advance_loop (current_trajectory it) (current_data it)))"

definition ConstIterator :: "'d MapById \<Rightarrow> failure + 'd ConstIterator" where
  "ConstIterator m =
     (case trajectories m of
        [] \<Rightarrow> Inr \<lparr>current_trajectory = [], current_data = []\<rparr>
      | t # _ \<Rightarrow>
          AdvanceToValidDataIterator
            \<lparr>current_trajectory = trajectories m, current_data = data (snd t)\<rparr>)"

definition EndIterator :: "'d MapById \<Rightarrow> failure + 'd ConstIterator" where
  "EndIterator m =
     (case ConstIterator m of
        Inl e \<Rightarrow> Inl e
      | Inr it \<Rightarrow> Inr (it\<lparr>current_trajectory := []\<rparr>))"

text \<open>\<^verbatim>\<open>operator*\<close>, \<^verbatim>\<open>operator++\<close> and \<^verbatim>\<open>operator==\<close>.\<close>

definition deref :: "'d ConstIterator \<Rightarrow> failure + (NodeId \<times> 'd)" where
  "deref it =
     (case current_trajectory it of
        [] \<Rightarrow> Inl CHECK_failed
      | t # _ \<Rightarrow>
          (case current_data it of
             [] \<Rightarrow> Inl undefined_behaviour
           | e # _ \<Rightarrow> Inr (\<lparr>trajectory_id = fst t, node_index = fst e\<rparr>, snd e)))"

definition increment :: "'d ConstIterator \<Rightarrow> failure + 'd ConstIterator" where
  "increment it =
     (if current_trajectory it = [] then Inl CHECK_failed
      else case current_data it of
             [] \<Rightarrow> Inl undefined_behaviour
           | _ # ds \<Rightarrow> AdvanceToValidDataIterator (it\<lparr>current_data := ds\<rparr>))"

definition iterator_eq :: "'d ConstIterator \<Rightarrow> 'd ConstIterator \<Rightarrow> bool" where
  "iterator_eq a b =
     (if current_trajectory a = [] \<or> current_trajectory b = []
      then current_trajectory a = current_trajectory b
      else current_trajectory a = current_trajectory b \<and> current_data a = current_data b)"

definition begin_it :: "'d MapById \<Rightarrow> failure + 'd ConstIterator" where
  "begin_it m = ConstIterator m"

definition end_it :: "'d MapById \<Rightarrow> failure + 'd ConstIterator" where
  "end_it m = EndIterator m"

text \<open>
  The traversal \<^verbatim>\<open>for (it = begin(); it != end(); ++it)\<close> collecting \<^verbatim>\<open>*it\<close>.  Each
  \<^verbatim>\<open>++it\<close> that succeeds leaves fewer trajectories ahead, or the same trajectories and
  fewer entries of the current one.
\<close>

function iterate :: "'d ConstIterator \<Rightarrow> 'd ConstIterator \<Rightarrow> failure + (NodeId \<times> 'd) list" where
  "iterate it last_it =
     (if iterator_eq it last_it then Inr []
      else case deref it of
             Inl e \<Rightarrow> Inl e
           | Inr x \<Rightarrow>
               (case increment it of
                  Inl e \<Rightarrow> Inl e
                | Inr it' \<Rightarrow>
                    (case iterate it' last_it of
                       Inl e \<Rightarrow> Inl e
                     | Inr xs \<Rightarrow> Inr (x # xs))))"
  by pat_completeness auto
termination
proof (relation "measures [\<lambda>p. length (current_trajectory (fst p)),
                           \<lambda>p. length (current_data (fst p))]")
  show "wf (measures [\<lambda>p :: 'd ConstIterator \<times> 'd ConstIterator. length (current_trajectory (fst p)),
                      \<lambda>p. length (current_data (fst p))])"
    by simp
next
  fix it last_it :: "'d ConstIterator" and x it'
  assume inc: "increment it = Inr it'"
  have no_longer: "length (current_trajectory (advance_loop trs ds)) \<le> length trs"
    for trs :: "'d MapByIndex std_map" and ds
    by (induction trs ds rule: advance_loop.induct) (auto split: list.splits)
  have shorter: "length (current_trajectory (advance_loop trs [])) < length trs"
    if "trs \<noteq> []" for trs :: "'d MapByIndex std_map"
    using that no_longer [of "tl trs" "data (snd (hd (tl trs)))"]
    by (cases trs) (auto split: list.splits)
  have stay: "advance_loop trs ds = \<lparr>current_trajectory = trs, current_data = ds\<rparr>"
    if "ds \<noteq> []" for trs :: "'d MapByIndex std_map" and ds
    using that by (cases trs; cases ds) auto
  from inc obtain e ds where ne: "current_trajectory it \<noteq> []"
    and cd: "current_data it = e # ds"
    and it': "it' = advance_loop (current_trajectory it) ds"
    by (auto simp: increment_def AdvanceToValidDataIterator_def split: if_splits list.splits)
  show "((it', last_it), (it, last_it))
          \<in> measures [\<lambda>p. length (current_trajectory (fst p)),
                       \<lambda>p. length (current_data (fst p))]"
  proof (cases "ds = []")
    case True
    with ne it' show ?thesis using shorter [of "current_trajectory it"] by simp
  next
    case False
    with it' cd show ?thesis by (simp add: stay)
  qed
qed

declare iterate.simps [simp del]

definition elements :: "'d MapById \<Rightarrow> failure + (NodeId \<times> 'd) list" where
  "elements m =
     (case begin_it m of
        Inl e \<Rightarrow> Inl e
      | Inr b \<Rightarrow> (case end_it m of Inl e \<Rightarrow> Inl e | Inr l \<Rightarrow> iterate b l))"

section \<open>Sequences of operations\<close>

datatype 'd operation = Append_op int 'd | Insert_op NodeId 'd | Trim_op NodeId

fun apply_operation :: "'d operation \<Rightarrow> 'd MapById \<Rightarrow> failure + 'd MapById" where
  "apply_operation (Append_op t d) m =
     (case Append t d m of Inl e \<Rightarrow> Inl e | Inr r \<Rightarrow> Inr (snd r))"
| "apply_operation (Insert_op i d) m = Insert i d m"
| "apply_operation (Trim_op i) m = Trim i m"

text \<open>A sequence of calls stops at the first failure.\<close>

fun run :: "'d operation list \<Rightarrow> 'd MapById \<Rightarrow> failure + 'd MapById" where
  "run [] m = Inr m"
| "run (x # xs) m = (case apply_operation x m of Inl e \<Rightarrow> Inl e | Inr m' \<Rightarrow> run xs m')"

text \<open>Appending the payloads of a list to one trajectory, collecting the identifiers
  returned.\<close>

fun append_all :: "int \<Rightarrow> 'd list \<Rightarrow> 'd MapById \<Rightarrow> failure + (NodeId list \<times> 'd MapById)" where
  "append_all t [] m = Inr ([], m)"
| "append_all t (d # ds) m =
     (case Append t d m of
        Inl e \<Rightarrow> Inl e
      | Inr r \<Rightarrow>
          (case append_all t ds (snd r) of
             Inl e \<Rightarrow> Inl e
           | Inr r' \<Rightarrow> Inr (fst r # fst r', snd r')))"

section \<open>What a container holds\<close>

text \<open>The container as a partial map from identifiers to payloads.\<close>

definition entry :: "'d MapById \<Rightarrow> NodeId \<Rightarrow> 'd option" where
  "entry m i =
     (case map_of (trajectories m) (trajectory_id i) of
        None \<Rightarrow> None
      | Some tr \<Rightarrow> map_of (data tr) (node_index i))"

text \<open>The flag and the occupied positions that a reference to trajectory \<open>t\<close> reads; a
  trajectory not referenced so far reads as the default one.\<close>

definition trajectory_can_append :: "int \<Rightarrow> 'd MapById \<Rightarrow> bool" where
  "trajectory_can_append t m = can_append (map_subscript t (trajectories m))"

definition positions :: "int \<Rightarrow> 'd MapById \<Rightarrow> int list" where
  "positions t m = map fst (data (map_subscript t (trajectories m)))"

definition is_max_position :: "int \<Rightarrow> int \<Rightarrow> 'd MapById \<Rightarrow> bool" where
  "is_max_position t p m = (p \<in> set (positions t m) \<and> list_all (\<lambda>q. q \<le> p) (positions t m))"

text \<open>The invariant of the two levels of \<^verbatim>\<open>std::map\<close>.\<close>

definition MapById_inv :: "'d MapById \<Rightarrow> bool" where
  "MapById_inv m =
     (sorted_keys (trajectories m) \<and> list_all (\<lambda>e. sorted_keys (data (snd e))) (trajectories m))"

text \<open>The position that \<^verbatim>\<open>Append\<close> computes from the entries of a trajectory.\<close>

definition next_index :: "'d std_map \<Rightarrow> int" where
  "next_index ds = (if ds = [] then 0 else fst (last ds) + 1)"

text \<open>The position the specification names for \<^verbatim>\<open>Append\<close>: one more than the largest
  position of the trajectory, or 0 when the trajectory has no entry.\<close>

definition next_position :: "int \<Rightarrow> 'd MapById \<Rightarrow> int" where
  "next_position t m = (if positions t m = [] then 0 else Max (set (positions t m)) + 1)"

text \<open>The entries of a container in storage order, each with its identifier: the
  entries of the first trajectory, then those of the second, and so on.\<close>

definition tag :: "int \<Rightarrow> 'd std_map \<Rightarrow> (NodeId \<times> 'd) list" where
  "tag t ds = map (\<lambda>e. (\<lparr>trajectory_id = t, node_index = fst e\<rparr>, snd e)) ds"

definition flatten :: "'d MapByIndex std_map \<Rightarrow> (NodeId \<times> 'd) list" where
  "flatten trs = concat (map (\<lambda>t. tag (fst t) (data (snd t))) trs)"

section \<open>The history of a trajectory\<close>

text \<open>Which operations of a sequence concern trajectory \<open>t\<close>, and how many of them are
  calls of \<^verbatim>\<open>Append\<close>.\<close>

fun is_append_to :: "int \<Rightarrow> 'd operation \<Rightarrow> bool" where
  "is_append_to t (Append_op t' d) = (t' = t)"
| "is_append_to t _ = False"

fun is_insert_into :: "int \<Rightarrow> 'd operation \<Rightarrow> bool" where
  "is_insert_into t (Insert_op i d) = (trajectory_id i = t)"
| "is_insert_into t _ = False"

fun is_trim_of :: "int \<Rightarrow> 'd operation \<Rightarrow> bool" where
  "is_trim_of t (Trim_op i) = (trajectory_id i = t)"
| "is_trim_of t _ = False"

definition appends_to :: "int \<Rightarrow> 'd operation list \<Rightarrow> nat" where
  "appends_to t xs = length (filter (is_append_to t) xs)"

text \<open>A trim of the trailing element: of the largest position that trajectory \<open>t\<close> has in
  the state in which the operation is called.\<close>

fun is_trailing_trim :: "int \<Rightarrow> 'd operation \<Rightarrow> 'd MapById \<Rightarrow> bool" where
  "is_trailing_trim t (Trim_op i) m = (trajectory_id i = t \<and> is_max_position t (node_index i) m)"
| "is_trailing_trim t _ m = False"

text \<open>Trajectory \<open>t\<close> is built by appends only along the operations \<open>xs\<close> run from the
  state \<open>m\<close>: none of them is an insert into \<open>t\<close> or a trim of its trailing element.\<close>

fun appends_only :: "int \<Rightarrow> 'd operation list \<Rightarrow> 'd MapById \<Rightarrow> bool" where
  "appends_only t [] m = True"
| "appends_only t (x # xs) m =
     (\<not> is_insert_into t x \<and> \<not> is_trailing_trim t x m \<and>
      (case apply_operation x m of Inl e \<Rightarrow> True | Inr m' \<Rightarrow> appends_only t xs m'))"

text \<open>Positions that form a contiguous run starting at 0.\<close>

definition contiguous_from_0 :: "int list \<Rightarrow> bool" where
  "contiguous_from_0 ps = (ps = map int [0..<length ps])"

text \<open>What the flag of trajectory \<open>t\<close> says about its positions after \<open>n\<close> appends, \<open>c\<close>
  telling whether no entry of \<open>t\<close> has been trimmed.\<close>

definition history_inv :: "int \<Rightarrow> nat \<Rightarrow> bool \<Rightarrow> 'd MapById \<Rightarrow> bool" where
  "history_inv t n c m =
     (trajectory_can_append t m \<longrightarrow>
        list_all (\<lambda>p. 0 \<le> p \<and> p < int n) (positions t m) \<and>
        (0 < n \<longrightarrow> positions t m \<noteq> [] \<and> last (positions t m) = int n - 1) \<and>
        (c \<longrightarrow> positions t m = map int [0..<n]))"

section \<open>Facts about the map operations\<close>

lemma map_find_Nil_iff: "map_find k m = [] \<longleftrightarrow> map_of m k = None"
  by (induction m) (auto simp: map_find_def)

lemma map_find_Cons: "map_find k m = e # r \<Longrightarrow> fst e = k \<and> map_of m k = Some (snd e)"
  by (induction m) (auto simp: map_find_def split: if_splits)

lemma map_at_eq:
  "map_at k m = (case map_of m k of None \<Rightarrow> Inl out_of_range | Some v \<Rightarrow> Inr v)"
proof (cases "map_find k m")
  case Nil
  then show ?thesis using map_find_Nil_iff[of k m] by (simp add: map_at_def)
next
  case (Cons e r)
  then show ?thesis using map_find_Cons[OF Cons] by (simp add: map_at_def)
qed

lemma map_subscript_eq:
  "map_subscript k m = (case map_of m k of None \<Rightarrow> MapByIndex_default | Some v \<Rightarrow> v)"
proof (cases "map_find k m")
  case Nil
  then show ?thesis using map_find_Nil_iff[of k m] by (simp add: map_subscript_def)
next
  case (Cons e r)
  then show ?thesis using map_find_Cons[OF Cons] by (simp add: map_subscript_def)
qed

lemma map_of_put: "map_of (map_put k v m) = (map_of m)(k \<mapsto> v)"
  by (induction m) (auto simp: fun_eq_iff)

lemma keys_put: "fst ` set (map_put k v m) = insert k (fst ` set m)"
  by (induction m) auto

lemma sorted_keys_put: "sorted_keys m \<Longrightarrow> sorted_keys (map_put k v m)"
  unfolding sorted_keys_def
proof (induction m)
  case Nil
  then show ?case by simp
next
  case (Cons e m)
  have keys: "\<forall>x\<in>set (map_put k v m). fst x = k \<or> (\<exists>y\<in>set m. fst x = fst y)"
    using keys_put[of k v m] by auto
  show ?case
  proof (cases "k < fst e \<or> k = fst e")
    case True
    with Cons.prems show ?thesis by auto
  next
    case False
    then have "fst e < k" by auto
    with keys Cons.prems have "\<forall>x\<in>set (map_put k v m). fst e < fst x" by fastforce
    with Cons False show ?thesis by simp
  qed
qed

lemma map_erase_Cons:
  "map_erase k (e # m) = (if fst e = k then m else e # map_erase k m)"
  by (simp add: map_erase_def map_find_def)

lemma map_erase_Nil: "map_erase k [] = []"
  by (simp add: map_erase_def map_find_def)

lemma keys_erase_subset: "fst ` set (map_erase k m) \<subseteq> fst ` set m"
  by (induction m) (auto simp: map_erase_Cons map_erase_Nil)

lemma sorted_keys_erase: "sorted_keys m \<Longrightarrow> sorted_keys (map_erase k m)"
  unfolding sorted_keys_def
proof (induction m)
  case Nil
  then show ?case by (simp add: map_erase_Nil)
next
  case (Cons e m)
  have "\<forall>x\<in>set (map_erase k m). \<exists>y\<in>set m. fst x = fst y"
    using keys_erase_subset[of k m] by auto
  with Cons.prems have "\<forall>x\<in>set (map_erase k m). fst e < fst x" by fastforce
  with Cons show ?case
    by (simp add: map_erase_Cons)
qed

lemma map_of_erase:
  "sorted_keys m \<Longrightarrow> map_of (map_erase k m) = (map_of m)(k := None)"
  unfolding sorted_keys_def
  by (induction m) (auto simp: map_erase_Cons map_erase_Nil fun_eq_iff map_of_eq_None_iff)

lemma sorted_keys_le_last:
  "sorted_keys m \<Longrightarrow> e \<in> set m \<Longrightarrow> fst e \<le> fst (last m)"
  unfolding sorted_keys_def
  by (induction m) (auto simp: less_imp_le)

lemma map_find_last:
  "map_find k m \<noteq> [] \<Longrightarrow> last (map_find k m) = last m"
  by (induction m) (auto simp: map_find_def)

lemma map_find_tl_Nil_iff:
  "sorted_keys m \<Longrightarrow> map_find k m \<noteq> [] \<Longrightarrow> tl (map_find k m) = [] \<longleftrightarrow> k = fst (last m)"
  unfolding sorted_keys_def
  by (induction m) (auto simp: map_find_def)

lemma map_put_snoc:
  "\<forall>e\<in>set m. fst e < k \<Longrightarrow> map_put k v m = m @ [(k, v)]"
  by (induction m) auto

section \<open>Facts about the container operations\<close>

lemma set_map_put: "set (map_put k v m) \<subseteq> insert (k, v) (set m)"
  by (induction m) auto

lemma map_subscript_put:
  "map_subscript t' (map_put t tr trs) = (if t' = t then tr else map_subscript t' trs)"
  by (simp add: map_subscript_eq map_of_put)

lemma entry_subscript:
  "entry m j = map_of (data (map_subscript (trajectory_id j) (trajectories m))) (node_index j)"
  by (simp add: entry_def map_subscript_eq MapByIndex_default_def split: option.splits)

lemma entry_put:
  "entry (m\<lparr>trajectories := map_put t tr (trajectories m)\<rparr>) j =
     (if trajectory_id j = t then map_of (data tr) (node_index j) else entry m j)"
  by (simp add: entry_def map_of_put)

lemma can_append_put:
  "trajectory_can_append t' (m\<lparr>trajectories := map_put t tr (trajectories m)\<rparr>) =
     (if t' = t then can_append tr else trajectory_can_append t' m)"
  by (simp add: trajectory_can_append_def map_subscript_put)

lemma positions_put:
  "positions t' (m\<lparr>trajectories := map_put t tr (trajectories m)\<rparr>) =
     (if t' = t then map fst (data tr) else positions t' m)"
  by (simp add: positions_def map_subscript_put)

lemma inv_subscript:
  assumes "MapById_inv m"
  shows "sorted_keys (data (map_subscript t (trajectories m)))"
proof (cases "map_of (trajectories m) t")
  case None
  then show ?thesis
    by (simp add: map_subscript_eq MapByIndex_default_def sorted_keys_def)
next
  case (Some tr)
  then have "(t, tr) \<in> set (trajectories m)" by (rule map_of_SomeD)
  with assms have "sorted_keys (data tr)"
    by (auto simp: MapById_inv_def list_all_iff)
  with Some show ?thesis by (simp add: map_subscript_eq)
qed

lemma inv_put:
  assumes "MapById_inv m" and "sorted_keys (data tr)"
  shows "MapById_inv (m\<lparr>trajectories := map_put t tr (trajectories m)\<rparr>)"
  using assms set_map_put [of t tr "trajectories m"]
  by (auto simp: MapById_inv_def list_all_iff sorted_keys_put)

lemma inv_empty: "MapById_inv MapById_empty"
  by (simp add: MapById_inv_def MapById_empty_def sorted_keys_def)

lemma at_entry:
  "at i m = (case entry m i of None \<Rightarrow> Inl out_of_range | Some d \<Rightarrow> Inr d)"
  by (simp add: at_def entry_def map_at_eq GetIndex_def split: option.splits)

lemma Append_locked:
  "\<not> trajectory_can_append t m \<Longrightarrow> Append t d m = Inl CHECK_failed"
  by (simp add: Append_def trajectory_can_append_def Let_def)

lemma Append_flag:
  assumes "Append t d m = Inr (i, m')"
  shows "trajectory_can_append t' m' = trajectory_can_append t' m"
  using assms
  by (auto simp: Append_def trajectory_can_append_def Let_def map_subscript_put
           split: if_splits)

lemma Insert_flag:
  assumes "Insert i d m = Inr m'"
  shows "trajectory_can_append t' m' =
           (t' \<noteq> trajectory_id i \<and> trajectory_can_append t' m)"
  using assms
  by (auto simp: Insert_def trajectory_can_append_def Let_def map_subscript_put
           split: if_splits)

lemma map_at_subscript: "map_at t trs = Inr tr \<Longrightarrow> map_subscript t trs = tr"
  by (auto simp: map_at_def map_subscript_def split: list.splits)

lemma Trim_Inr:
  assumes "Trim i m = Inr m'"
  shows "map_at (trajectory_id i) (trajectories m)
           = Inr (map_subscript (trajectory_id i) (trajectories m)) \<and>
         map_find (node_index i) (data (map_subscript (trajectory_id i) (trajectories m))) \<noteq> [] \<and>
         m' = m\<lparr>trajectories :=
                  map_put (trajectory_id i)
                    \<lparr>can_append =
                       can_append (map_subscript (trajectory_id i) (trajectories m)) \<and>
                       tl (map_find (node_index i)
                            (data (map_subscript (trajectory_id i) (trajectories m)))) \<noteq> [],
                     data = map_erase (node_index i)
                              (data (map_subscript (trajectory_id i) (trajectories m)))\<rparr>
                    (trajectories m)\<rparr>"
proof -
  from assms obtain tr where tr: "map_at (trajectory_id i) (trajectories m) = Inr tr"
    by (auto simp: Trim_def split: sum.splits)
  from map_at_subscript [OF tr] have sub: "map_subscript (trajectory_id i) (trajectories m) = tr" .
  from assms tr show ?thesis unfolding sub
    by (cases tr) (auto simp: Trim_def Let_def GetIndex_def split: if_splits)
qed

lemma Trim_flag:
  assumes "Trim i m = Inr m'"
  shows "trajectory_can_append t' m' =
           (trajectory_can_append t' m \<and>
            \<not> (t' = trajectory_id i \<and>
               tl (map_find (node_index i) (data (map_subscript t' (trajectories m)))) = []))"
  using Trim_Inr [OF assms]
  by (auto simp: trajectory_can_append_def map_subscript_put)

lemma apply_operation_locked:
  assumes "apply_operation x m = Inr m'" and "\<not> trajectory_can_append t m"
  shows "\<not> trajectory_can_append t m'"
proof (cases x)
  case (Append_op t' d)
  with assms(1) obtain i where "Append t' d m = Inr (i, m')"
    by (auto split: sum.splits)
  from Append_flag [OF this] assms(2) show ?thesis by simp
next
  case (Insert_op i d)
  with assms(1) have "Insert i d m = Inr m'" by simp
  from Insert_flag [OF this] assms(2) show ?thesis by simp
next
  case (Trim_op i)
  with assms(1) have "Trim i m = Inr m'" by simp
  from Trim_flag [OF this] assms(2) show ?thesis by simp
qed

lemma run_locked:
  "run xs m = Inr m' \<Longrightarrow> \<not> trajectory_can_append t m \<Longrightarrow> \<not> trajectory_can_append t m'"
proof (induction xs arbitrary: m)
  case Nil
  then show ?case by simp
next
  case (Cons x xs)
  from Cons.prems(1) obtain m1 where s: "apply_operation x m = Inr m1" and r: "run xs m1 = Inr m'"
    by (auto split: sum.splits)
  from apply_operation_locked [OF s Cons.prems(2)] have "\<not> trajectory_can_append t m1" .
  with Cons.IH [OF r] show ?case by simp
qed

lemma Append_negative: "t < 0 \<Longrightarrow> Append t d m = Inl CHECK_failed"
  by (simp add: Append_def)

lemma map_find_keys: "map_find k ds \<noteq> [] \<longleftrightarrow> k \<in> set (map fst ds)"
  by (induction ds) (auto simp: map_find_def)

lemma last_is_max_iff:
  assumes "sorted_keys ds" and "map_find k ds \<noteq> []"
  shows "tl (map_find k ds) = [] \<longleftrightarrow> list_all (\<lambda>q. q \<le> k) (map fst ds)"
proof -
  from assms(2) have ne: "ds \<noteq> []" by (auto simp: map_find_def)
  from assms(2) have mem: "k \<in> set (map fst ds)" by (simp add: map_find_keys)
  have "k = fst (last ds) \<longleftrightarrow> list_all (\<lambda>q. q \<le> k) (map fst ds)"
  proof
    assume "k = fst (last ds)"
    with sorted_keys_le_last [OF assms(1)] show "list_all (\<lambda>q. q \<le> k) (map fst ds)"
      by (auto simp: list_all_iff)
  next
    assume a: "list_all (\<lambda>q. q \<le> k) (map fst ds)"
    from ne have "last ds \<in> set ds" by simp
    with a have "fst (last ds) \<le> k" by (auto simp: list_all_iff)
    moreover from mem sorted_keys_le_last [OF assms(1)] have "k \<le> fst (last ds)" by auto
    ultimately show "k = fst (last ds)" by simp
  qed
  with map_find_tl_Nil_iff [OF assms] show ?thesis by simp
qed

lemma Max_keys_last:
  assumes "sorted_keys ds" and "ds \<noteq> []"
  shows "Max (set (map fst ds)) = fst (last ds)"
proof (rule Max_eqI)
  show "finite (set (map fst ds))" by simp
  show "\<And>y. y \<in> set (map fst ds) \<Longrightarrow> y \<le> fst (last ds)"
    using sorted_keys_le_last [OF assms(1)] by auto
  from assms(2) show "fst (last ds) \<in> set (map fst ds)" by simp
qed

lemma sorted_keys_snoc:
  assumes "sorted_keys ds" and "\<forall>e\<in>set ds. fst e < k"
  shows "sorted_keys (ds @ [(k, v)])"
  using assms by (auto simp: sorted_keys_def sorted_wrt_append)

lemma Append_success:
  assumes inv: "MapById_inv m" and t: "0 \<le> t" and flag: "trajectory_can_append t m"
    and small: "list_all (\<lambda>p. p < INT_MAX) (positions t m)"
  shows "Append t d m =
           Inr (\<lparr>trajectory_id = t, node_index = next_index (data (map_subscript t (trajectories m)))\<rparr>,
                m\<lparr>trajectories :=
                    map_put t
                      ((map_subscript t (trajectories m))
                         \<lparr>data := data (map_subscript t (trajectories m))
                                   @ [(next_index (data (map_subscript t (trajectories m))), d)]\<rparr>)
                      (trajectories m)\<rparr>)"
    and "\<forall>e\<in>set (data (map_subscript t (trajectories m))).
           fst e < next_index (data (map_subscript t (trajectories m)))"
proof -
  let ?tr = "map_subscript t (trajectories m)"
  let ?k = "next_index (data ?tr)"
  have sk: "sorted_keys (data ?tr)" by (rule inv_subscript [OF inv])
  show below: "\<forall>e\<in>set (data ?tr). fst e < ?k"
    using sorted_keys_le_last [OF sk] by (fastforce simp: next_index_def)
  then have "?k \<notin> set (map fst (data ?tr))" by auto
  then have nf: "map_find ?k (data ?tr) = []" using map_find_keys [of ?k "data ?tr"] by simp
  have no_overflow: "data ?tr \<noteq> [] \<Longrightarrow> fst (last (data ?tr)) < INT_MAX"
  proof -
    assume "data ?tr \<noteq> []"
    then have "fst (last (data ?tr)) \<in> set (positions t m)" by (simp add: positions_def)
    with small show ?thesis by (auto simp: list_all_iff)
  qed
  from t flag nf no_overflow map_put_snoc [OF below, of d]
  show "Append t d m =
          Inr (\<lparr>trajectory_id = t, node_index = ?k\<rparr>,
               m\<lparr>trajectories := map_put t (?tr\<lparr>data := data ?tr @ [(?k, d)]\<rparr>) (trajectories m)\<rparr>)"
    by (auto simp: Append_def Let_def trajectory_can_append_def map_emplace_def next_index_def)
qed

lemma Insert_success:
  assumes "entry m i = None"
  shows "Insert i d m =
           Inr (m\<lparr>trajectories :=
                    map_put (trajectory_id i)
                      \<lparr>can_append = False,
                       data = map_put (node_index i) d
                                (data (map_subscript (trajectory_id i) (trajectories m)))\<rparr>
                      (trajectories m)\<rparr>)"
proof -
  let ?tr = "map_subscript (trajectory_id i) (trajectories m)"
  from assms have "map_find (node_index i) (data ?tr) = []"
    by (simp add: entry_subscript map_find_Nil_iff)
  then show ?thesis
    by (cases ?tr) (simp add: Insert_def Let_def map_emplace_def GetIndex_def)
qed

lemma locked_forever:
  assumes "\<not> trajectory_can_append t m" and "run xs m = Inr m'"
  shows "Append t d m' = Inl CHECK_failed"
  using run_locked [OF assms(2) assms(1)] by (rule Append_locked)

lemma is_max_position_iff:
  assumes "MapById_inv m"
    and "map_find p (data (map_subscript t (trajectories m))) \<noteq> []"
  shows "is_max_position t p m
           \<longleftrightarrow> tl (map_find p (data (map_subscript t (trajectories m)))) = []"
  using last_is_max_iff [OF inv_subscript [OF assms(1)] assms(2)] assms(2)
  by (simp add: is_max_position_def positions_def map_find_keys)

lemma Trim_success:
  assumes inv: "MapById_inv m" and e: "entry m i = Some d0"
  shows "Trim i m =
           Inr (m\<lparr>trajectories :=
                    map_put (trajectory_id i)
                      \<lparr>can_append =
                         trajectory_can_append (trajectory_id i) m \<and>
                         \<not> is_max_position (trajectory_id i) (node_index i) m,
                       data = map_erase (node_index i)
                                (data (map_subscript (trajectory_id i) (trajectories m)))\<rparr>
                      (trajectories m)\<rparr>)"
proof -
  let ?tr = "map_subscript (trajectory_id i) (trajectories m)"
  from e have tr: "map_of (trajectories m) (trajectory_id i) = Some ?tr"
    by (auto simp: entry_def map_subscript_eq split: option.splits)
  then have at_tr: "map_at (trajectory_id i) (trajectories m) = Inr ?tr"
    by (simp add: map_at_eq)
  from e have found: "map_find (node_index i) (data ?tr) \<noteq> []"
    by (simp add: entry_subscript map_find_Nil_iff)
  note mx = is_max_position_iff [OF inv found]
  from at_tr found mx show ?thesis
    by (cases ?tr) (auto simp: Trim_def Let_def GetIndex_def trajectory_can_append_def)
qed

lemma next_position_index:
  assumes "MapById_inv m"
  shows "next_position t m = next_index (data (map_subscript t (trajectories m)))"
  using Max_keys_last [OF inv_subscript [OF assms, of t]]
  by (simp add: next_position_def next_index_def positions_def)

lemma Append_entry:
  assumes inv: "MapById_inv m" and t: "0 \<le> t" and flag: "trajectory_can_append t m"
    and small: "list_all (\<lambda>p. p < INT_MAX) (positions t m)"
  shows "\<exists>m'. Append t d m = Inr (\<lparr>trajectory_id = t, node_index = next_position t m\<rparr>, m') \<and>
              entry m \<lparr>trajectory_id = t, node_index = next_position t m\<rparr> = None \<and>
              entry m' = (entry m)(\<lparr>trajectory_id = t, node_index = next_position t m\<rparr> \<mapsto> d) \<and>
              MapById_inv m' \<and>
              positions t m' = positions t m @ [next_position t m]"
proof -
  let ?tr = "map_subscript t (trajectories m)"
  let ?k = "next_index (data ?tr)"
  let ?i = "\<lparr>trajectory_id = t, node_index = ?k\<rparr>"
  let ?m' = "m\<lparr>trajectories := map_put t (?tr\<lparr>data := data ?tr @ [(?k, d)]\<rparr>) (trajectories m)\<rparr>"
  note app = Append_success(1) [OF inv t flag small, of d] Append_success(2) [OF inv t flag small]
  from app(2) have "?k \<notin> fst ` set (data ?tr)" by auto
  then have fresh: "map_of (data ?tr) ?k = None" by (simp add: map_of_eq_None_iff)
  then have none: "entry m ?i = None" by (simp add: entry_subscript)
  have ent: "entry ?m' = (entry m)(?i \<mapsto> d)"
  proof
    fix j
    show "entry ?m' j = ((entry m)(?i \<mapsto> d)) j"
    proof (cases "trajectory_id j = t")
      case True
      then have "(j = ?i) = (node_index j = ?k)" by (cases j) auto
      moreover from True have "entry m j = map_of (data ?tr) (node_index j)"
        by (simp add: entry_subscript)
      ultimately show ?thesis using True fresh
        by (auto simp: entry_put map_add_def split: option.splits)
    next
      case False
      then have "j \<noteq> ?i" by auto
      with False show ?thesis by (simp add: entry_put)
    qed
  qed
  have "sorted_keys (data ?tr @ [(?k, d)])"
    by (rule sorted_keys_snoc [OF inv_subscript [OF inv] app(2)])
  then have inv': "MapById_inv ?m'" by (intro inv_put [OF inv]) simp
  have pos: "positions t ?m' = positions t m @ [?k]"
    by (simp add: positions_put) (simp add: positions_def)
  from app(1) none ent inv' pos show ?thesis
    unfolding next_position_index [OF inv] by blast
qed

lemma can_append_empty: "trajectory_can_append t MapById_empty"
  by (simp add: trajectory_can_append_def MapById_empty_def map_subscript_def map_find_def
      MapByIndex_default_def)

lemma positions_empty: "positions t MapById_empty = []"
  by (simp add: positions_def MapById_empty_def map_subscript_def map_find_def
      MapByIndex_default_def)

lemma append_all_from:
  assumes "MapById_inv m" and "0 \<le> t" and "trajectory_can_append t m"
    and "positions t m = map int [0..<k]" and "k + length ds \<le> 2147483648"
  shows "\<exists>m'. append_all t ds m =
                Inr (map (\<lambda>j. \<lparr>trajectory_id = t, node_index = int j\<rparr>) [k..<k + length ds], m')"
  using assms
proof (induction ds arbitrary: m k)
  case Nil
  then show ?case by simp
next
  case (Cons d ds)
  from Cons.prems(5) have k: "int k \<le> INT_MAX" by (simp add: INT_MAX_def)
  from Cons.prems(4) k have small: "list_all (\<lambda>p. p < INT_MAX) (positions t m)"
    by (auto simp: list_all_iff)
  have np: "next_position t m = int k"
  proof (cases k)
    case 0
    with Cons.prems(4) show ?thesis by (simp add: next_position_def)
  next
    case (Suc n)
    have "Max (set (map int [0..<Suc n])) = int n"
      by (rule Max_eqI) auto
    with Suc Cons.prems(4) show ?thesis by (simp add: next_position_def)
  qed
  from Append_entry [OF Cons.prems(1-3) small, of d] np
  obtain m1 where app: "Append t d m = Inr (\<lparr>trajectory_id = t, node_index = int k\<rparr>, m1)"
    and inv1: "MapById_inv m1" and pos1: "positions t m1 = positions t m @ [int k]"
    by auto
  from Append_flag [OF app, of t] Cons.prems(3) have flag1: "trajectory_can_append t m1" by simp
  from pos1 Cons.prems(4) have pos1': "positions t m1 = map int [0..<Suc k]" by simp
  from Cons.prems(5) have len: "Suc k + length ds \<le> 2147483648" by simp
  from Cons.IH [OF inv1 Cons.prems(2) flag1 pos1' len]
  obtain m' where rest: "append_all t ds m1 =
      Inr (map (\<lambda>j. \<lparr>trajectory_id = t, node_index = int j\<rparr>) [Suc k..<Suc k + length ds], m')"
    by blast
  have "k < k + length (d # ds)" by simp
  from upt_conv_Cons [OF this]
  have "[k..<k + length (d # ds)] = k # [Suc k..<Suc k + length ds]" by simp
  with app rest show ?case by simp
qed

section \<open>Facts about the iterator\<close>

lemma iterate_end:
  "current_trajectory it = [] \<Longrightarrow> current_trajectory l = [] \<Longrightarrow> iterate it l = Inr []"
  by (simp add: iterate.simps iterator_eq_def)

lemma iterate_step:
  assumes "current_trajectory l = []"
  shows "iterate \<lparr>current_trajectory = t # trs, current_data = e # ds\<rparr> l =
           (case iterate (advance_loop (t # trs) ds) l of
              Inl f \<Rightarrow> Inl f
            | Inr xs \<Rightarrow> Inr ((\<lparr>trajectory_id = fst t, node_index = fst e\<rparr>, snd e) # xs))"
  using assms
  by (subst iterate.simps)
     (simp add: iterator_eq_def deref_def increment_def AdvanceToValidDataIterator_def)

lemma iterate_from:
  assumes "current_trajectory l = []"
  shows "iterate (advance_loop (t # trs) ds) l = Inr (tag (fst t) ds @ flatten trs)"
proof (induction trs arbitrary: t ds)
  case Nil
  show ?case
  proof (induction ds)
    case Nil
    show ?case using assms by (simp add: iterate_end tag_def flatten_def)
  next
    case (Cons e ds)
    then show ?case using assms by (simp add: iterate_step tag_def)
  qed
next
  case (Cons t' trs)
  show ?case
  proof (induction ds)
    case Nil
    show ?case using Cons.IH [of t' "data (snd t')"]
      by (simp add: tag_def flatten_def)
  next
    case (Cons e ds)
    then show ?case using assms by (simp add: iterate_step tag_def)
  qed
qed

lemma elements_flatten: "elements m = Inr (flatten (trajectories m))"
proof (cases "trajectories m")
  case Nil
  then show ?thesis
    by (simp add: elements_def begin_it_def end_it_def ConstIterator_def EndIterator_def
        iterate_end flatten_def)
next
  case (Cons t trs)
  then show ?thesis
    using iterate_from [of "(advance_loop (t # trs) (data (snd t)))\<lparr>current_trajectory := []\<rparr>" t trs "data (snd t)"]
    by (simp add: elements_def begin_it_def end_it_def ConstIterator_def EndIterator_def
        AdvanceToValidDataIterator_def flatten_def)
qed

lemma set_tag:
  "(i, d) \<in> set (tag t ds) \<longleftrightarrow> trajectory_id i = t \<and> (node_index i, d) \<in> set ds"
  by (cases i) (force simp: tag_def)

lemma set_flatten:
  "(i, d) \<in> set (flatten trs) \<longleftrightarrow>
     (\<exists>tr. (trajectory_id i, tr) \<in> set trs \<and> (node_index i, d) \<in> set (data tr))"
proof
  assume "(i, d) \<in> set (flatten trs)"
  then obtain t where "t \<in> set trs" and "(i, d) \<in> set (tag (fst t) (data (snd t)))"
    by (auto simp: flatten_def)
  then have "(trajectory_id i, snd t) \<in> set trs \<and> (node_index i, d) \<in> set (data (snd t))"
    by (simp add: set_tag)
  then show "\<exists>tr. (trajectory_id i, tr) \<in> set trs \<and> (node_index i, d) \<in> set (data tr)" ..
next
  assume "\<exists>tr. (trajectory_id i, tr) \<in> set trs \<and> (node_index i, d) \<in> set (data tr)"
  then obtain tr where a: "(trajectory_id i, tr) \<in> set trs" and b: "(node_index i, d) \<in> set (data tr)"
    by blast
  from b have "(i, d) \<in> set (tag (fst (trajectory_id i, tr)) (data (snd (trajectory_id i, tr))))"
    by (simp add: set_tag)
  with a show "(i, d) \<in> set (flatten trs)"
    unfolding flatten_def set_concat set_map by blast
qed

lemma sorted_keys_distinct: "sorted_keys m \<Longrightarrow> distinct (map fst m)"
  by (simp add: sorted_keys_def strict_sorted_iff)

lemma flatten_entry:
  assumes "MapById_inv m"
  shows "(i, d) \<in> set (flatten (trajectories m)) \<longleftrightarrow> entry m i = Some d"
proof -
  from assms have dt: "distinct (map fst (trajectories m))"
    by (simp add: MapById_inv_def sorted_keys_distinct)
  have dd: "distinct (map fst (data tr))" if "(t, tr) \<in> set (trajectories m)" for t tr
    using assms that by (auto simp: MapById_inv_def list_all_iff sorted_keys_distinct)
  show ?thesis
  proof
    assume "(i, d) \<in> set (flatten (trajectories m))"
    then obtain tr where tr: "(trajectory_id i, tr) \<in> set (trajectories m)"
      and e: "(node_index i, d) \<in> set (data tr)"
      by (auto simp: set_flatten)
    from tr dt have "map_of (trajectories m) (trajectory_id i) = Some tr" by simp
    moreover from e dd [OF tr] have "map_of (data tr) (node_index i) = Some d" by simp
    ultimately show "entry m i = Some d" by (simp add: entry_def)
  next
    assume "entry m i = Some d"
    then obtain tr where "map_of (trajectories m) (trajectory_id i) = Some tr"
      and "map_of (data tr) (node_index i) = Some d"
      by (auto simp: entry_def split: option.splits)
    then have "(trajectory_id i, tr) \<in> set (trajectories m)" "(node_index i, d) \<in> set (data tr)"
      by (auto dest: map_of_SomeD)
    then show "(i, d) \<in> set (flatten (trajectories m))" by (auto simp: set_flatten)
  qed
qed

lemma sorted_tag:
  "sorted_keys ds \<Longrightarrow> sorted_wrt NodeId_less (map fst (tag t ds))"
  by (simp add: sorted_keys_def tag_def sorted_wrt_map NodeId_less_def)

lemma sorted_flatten:
  assumes "sorted_keys trs" and "list_all (\<lambda>e. sorted_keys (data (snd e))) trs"
  shows "sorted_wrt NodeId_less (map fst (flatten trs))"
  using assms
proof (induction trs)
  case Nil
  then show ?case by (simp add: flatten_def)
next
  case (Cons t trs)
  from Cons.prems have rest: "sorted_wrt NodeId_less (map fst (flatten trs))"
    by (intro Cons.IH) (simp_all add: sorted_keys_def)
  from Cons.prems have here: "sorted_wrt NodeId_less (map fst (tag (fst t) (data (snd t))))"
    by (simp add: sorted_tag)
  have cross: "NodeId_less (fst x) (fst y)"
    if "x \<in> set (tag (fst t) (data (snd t)))" and "y \<in> set (flatten trs)" for x y
  proof -
    obtain i d j d' where xy: "x = (i, d)" "y = (j, d')" by (cases x, cases y) blast
    with that(1) have "trajectory_id (fst x) = fst t" by (simp add: set_tag)
    moreover from that(2) xy obtain tr where "(trajectory_id (fst y), tr) \<in> set trs"
      by (auto simp: set_flatten)
    with Cons.prems(1) have "fst t < trajectory_id (fst y)"
      by (force simp: sorted_keys_def)
    ultimately show ?thesis by (simp add: NodeId_less_def)
  qed
  have "flatten (t # trs) = tag (fst t) (data (snd t)) @ flatten trs"
    by (simp add: flatten_def)
  with rest here cross show ?case by (auto simp: sorted_wrt_append)
qed

lemma NodeId_sorted_distinct: "sorted_wrt NodeId_less is \<Longrightarrow> distinct is"
  by (induction "is") (auto simp: NodeId_less_def)

section \<open>Facts about sequences of operations\<close>

lemma run_snoc:
  "run (xs @ [x]) m0 = (case run xs m0 of Inl e \<Rightarrow> Inl e | Inr m \<Rightarrow> apply_operation x m)"
  by (induction xs arbitrary: m0) (auto split: sum.splits)

lemma appends_only_snoc:
  "run xs m0 = Inr m \<Longrightarrow>
   appends_only t (xs @ [x]) m0 =
     (appends_only t xs m0 \<and> \<not> is_insert_into t x \<and> \<not> is_trailing_trim t x m)"
  by (induction xs arbitrary: m0) (auto split: sum.splits)

lemma sorted_keys_emplace: "sorted_keys ds \<Longrightarrow> sorted_keys (fst (map_emplace k v ds))"
  by (simp add: map_emplace_def sorted_keys_put)

lemma Append_inv:
  assumes "Append t d m = Inr (i, m')" and "MapById_inv m"
  shows "MapById_inv m'"
proof -
  let ?tr = "map_subscript t (trajectories m)"
  from assms(1) obtain k where
    m': "m' = m\<lparr>trajectories :=
                  map_put t (?tr\<lparr>data := fst (map_emplace k d (data ?tr))\<rparr>) (trajectories m)\<rparr>"
    by (auto simp: Append_def Let_def split: if_splits)
  show ?thesis unfolding m'
    by (rule inv_put [OF assms(2)])
       (simp add: sorted_keys_emplace inv_subscript [OF assms(2)])
qed

lemma Insert_Inr:
  assumes "Insert i d m = Inr m'"
  shows "m' = m\<lparr>trajectories :=
                  map_put (trajectory_id i)
                    \<lparr>can_append = False,
                     data = map_put (node_index i) d
                              (data (map_subscript (trajectory_id i) (trajectories m)))\<rparr>
                    (trajectories m)\<rparr>"
  using assms
  by (cases "map_subscript (trajectory_id i) (trajectories m)")
     (auto simp: Insert_def Let_def map_emplace_def GetIndex_def split: if_splits)

lemma Insert_inv:
  assumes "Insert i d m = Inr m'" and "MapById_inv m"
  shows "MapById_inv m'"
  unfolding Insert_Inr [OF assms(1)]
  by (rule inv_put [OF assms(2)]) (simp add: sorted_keys_put inv_subscript [OF assms(2)])

lemma Trim_inv:
  assumes "Trim i m = Inr m'" and "MapById_inv m"
  shows "MapById_inv m'"
proof -
  from Trim_Inr [OF assms(1)] obtain f where
    m': "m' = m\<lparr>trajectories :=
                  map_put (trajectory_id i)
                    \<lparr>can_append = f,
                     data = map_erase (node_index i)
                              (data (map_subscript (trajectory_id i) (trajectories m)))\<rparr>
                    (trajectories m)\<rparr>"
    by blast
  show ?thesis unfolding m'
    by (rule inv_put [OF assms(2)]) (simp add: sorted_keys_erase inv_subscript [OF assms(2)])
qed

lemma apply_operation_inv:
  assumes "apply_operation x m = Inr m'" and "MapById_inv m"
  shows "MapById_inv m'"
proof (cases x)
  case (Append_op t d)
  with assms(1) obtain i where "Append t d m = Inr (i, m')" by (auto split: sum.splits)
  then show ?thesis using assms(2) by (rule Append_inv)
next
  case (Insert_op i d)
  with assms show ?thesis by (simp add: Insert_inv)
next
  case (Trim_op i)
  with assms show ?thesis by (simp add: Trim_inv)
qed

lemma run_inv: "run xs m = Inr m' \<Longrightarrow> MapById_inv m \<Longrightarrow> MapById_inv m'"
proof (induction xs arbitrary: m)
  case Nil
  then show ?case by simp
next
  case (Cons x xs)
  from Cons.prems(1) obtain m1 where s: "apply_operation x m = Inr m1" and r: "run xs m1 = Inr m'"
    by (auto split: sum.splits)
  from Cons.IH [OF r apply_operation_inv [OF s Cons.prems(2)]] show ?case .
qed

lemma Append_Inr_positions:
  assumes app: "Append t d m = Inr (i, m')" and inv: "MapById_inv m"
  shows "positions t' m' =
           (if t' = t then positions t m @ [next_index (data (map_subscript t (trajectories m)))]
            else positions t' m)"
proof -
  let ?tr = "map_subscript t (trajectories m)"
  from app have t: "0 \<le> t" and flag: "trajectory_can_append t m"
    and nov: "data ?tr = [] \<or> fst (last (data ?tr)) < INT_MAX"
    by (auto simp: Append_def Let_def trajectory_can_append_def split: if_splits)
  have small: "list_all (\<lambda>p. p < INT_MAX) (positions t m)"
  proof (cases "data ?tr = []")
    case True
    then show ?thesis by (simp add: positions_def)
  next
    case False
    with nov have "fst (last (data ?tr)) < INT_MAX" by simp
    with sorted_keys_le_last [OF inv_subscript [OF inv, of t]] show ?thesis
      by (fastforce simp: positions_def list_all_iff)
  qed
  from Append_success(1) [OF inv t flag small, of d] app
  have "m' = m\<lparr>trajectories :=
                 map_put t (?tr\<lparr>data := data ?tr @ [(next_index (data ?tr), d)]\<rparr>) (trajectories m)\<rparr>"
    by simp
  then show ?thesis by (simp add: positions_put) (simp add: positions_def)
qed

lemma map_erase_last:
  "tl (map_find k ds) \<noteq> [] \<Longrightarrow> map_erase k ds \<noteq> [] \<and> last (map_erase k ds) = last ds"
proof (induction ds)
  case Nil
  then show ?case by (simp add: map_find_def)
next
  case (Cons e ds)
  show ?case
  proof (cases "fst e = k")
    case True
    with Cons.prems show ?thesis by (simp add: map_erase_Cons map_find_def)
  next
    case False
    with Cons.prems have "tl (map_find k ds) \<noteq> []" by (simp add: map_find_def)
    from Cons.IH [OF this] False show ?thesis
      by (auto simp: map_erase_Cons map_erase_Nil)
  qed
qed

lemma Trim_Inr_positions:
  assumes "Trim i m = Inr m'"
  shows "positions t' m' =
           (if t' = trajectory_id i
            then map fst (map_erase (node_index i)
                            (data (map_subscript (trajectory_id i) (trajectories m))))
            else positions t' m)"
  using Trim_Inr [OF assms] by (auto simp: positions_def map_subscript_put)

lemma Insert_Inr_positions:
  assumes "Insert i d m = Inr m'" and "t' \<noteq> trajectory_id i"
  shows "positions t' m' = positions t' m"
  using assms(2) unfolding Insert_Inr [OF assms(1)] by (simp add: positions_put)

lemma appends_to_snoc:
  "appends_to t (xs @ [x]) = (if is_append_to t x then Suc (appends_to t xs) else appends_to t xs)"
  by (simp add: appends_to_def)

lemma list_all_keys_erase:
  "list_all P (map fst ds) \<Longrightarrow> list_all P (map fst (map_erase k ds))"
  by (induction ds) (auto simp: map_erase_Cons map_erase_Nil)

lemma history_step:
  assumes inv: "MapById_inv m" and h: "history_inv t n c m"
    and s: "apply_operation x m = Inr m'"
  shows "history_inv t (if is_append_to t x then Suc n else n) (c \<and> \<not> is_trim_of t x) m'"
    and "trajectory_can_append t m' \<longrightarrow> \<not> is_insert_into t x \<and> \<not> is_trailing_trim t x m"
proof -
  have old: "trajectory_can_append t m" if "trajectory_can_append t m'"
    using apply_operation_locked [OF s, of t] that by blast
  let ?tr = "map_subscript t (trajectories m)"
  show "history_inv t (if is_append_to t x then Suc n else n) (c \<and> \<not> is_trim_of t x) m'"
  proof (cases x)
    case (Append_op t' d)
    with s obtain i where app: "Append t' d m = Inr (i, m')" by (auto split: sum.splits)
    note pos = Append_Inr_positions [OF app inv, of t]
    show ?thesis
    proof (cases "t' = t")
      case False
      with h pos Append_flag [OF app, of t] Append_op show ?thesis
        by (simp add: history_inv_def)
    next
      case True
      have "history_inv t (Suc n) c m'"
        unfolding history_inv_def
      proof
        assume "trajectory_can_append t m'"
        then have f: "trajectory_can_append t m" by (rule old)
        with h have la: "list_all (\<lambda>p. 0 \<le> p \<and> p < int n) (positions t m)"
          and lst: "0 < n \<longrightarrow> positions t m \<noteq> [] \<and> last (positions t m) = int n - 1"
          and cont: "c \<longrightarrow> positions t m = map int [0..<n]"
          by (simp_all add: history_inv_def)
        have nx: "next_index (data ?tr) = int n"
        proof (cases "n = 0")
          case True
          with la have "positions t m = []" by (cases "positions t m") auto
          with True show ?thesis by (simp add: positions_def next_index_def)
        next
          case False
          with lst have ne: "positions t m \<noteq> []" and l: "last (positions t m) = int n - 1"
            by simp_all
          from ne have "data ?tr \<noteq> []" by (simp add: positions_def)
          moreover from this l have "fst (last (data ?tr)) = int n - 1"
            by (simp add: positions_def last_map)
          ultimately show ?thesis by (simp add: next_index_def)
        qed
        from pos True nx have p': "positions t m' = positions t m @ [int n]" by simp
        from la have "list_all (\<lambda>p. 0 \<le> p \<and> p < int (Suc n)) (positions t m)"
          by (auto simp: list_all_iff)
        with p' cont
        show "list_all (\<lambda>p. 0 \<le> p \<and> p < int (Suc n)) (positions t m') \<and>
              (0 < Suc n \<longrightarrow> positions t m' \<noteq> [] \<and> last (positions t m') = int (Suc n) - 1) \<and>
              (c \<longrightarrow> positions t m' = map int [0..<Suc n])"
          by auto
      qed
      with True Append_op show ?thesis by simp
    qed
  next
    case (Insert_op i d)
    with s have ins: "Insert i d m = Inr m'" by simp
    show ?thesis
    proof (cases "trajectory_id i = t")
      case True
      with Insert_flag [OF ins, of t] show ?thesis by (simp add: history_inv_def)
    next
      case False
      then have "t \<noteq> trajectory_id i" by auto
      with h Insert_flag [OF ins, of t] Insert_Inr_positions [OF ins this] Insert_op
      show ?thesis by (simp add: history_inv_def)
    qed
  next
    case (Trim_op i)
    with s have trim: "Trim i m = Inr m'" by simp
    note pos = Trim_Inr_positions [OF trim, of t]
    note flag = Trim_flag [OF trim, of t]
    show ?thesis
    proof (cases "trajectory_id i = t")
      case False
      with h pos flag Trim_op show ?thesis by (auto simp: history_inv_def)
    next
      case True
      have "history_inv t n False m'"
        unfolding history_inv_def
      proof
        assume f': "trajectory_can_append t m'"
        with flag True have f: "trajectory_can_append t m"
          and nl: "tl (map_find (node_index i) (data ?tr)) \<noteq> []"
          by auto
        from f h have la: "list_all (\<lambda>p. 0 \<le> p \<and> p < int n) (positions t m)"
          and lst: "0 < n \<longrightarrow> positions t m \<noteq> [] \<and> last (positions t m) = int n - 1"
          by (simp_all add: history_inv_def)
        from pos True have p': "positions t m' = map fst (map_erase (node_index i) (data ?tr))"
          by simp
        from la have "list_all (\<lambda>p. 0 \<le> p \<and> p < int n) (map fst (data ?tr))"
          by (simp add: positions_def)
        then have "list_all (\<lambda>p. 0 \<le> p \<and> p < int n)
                     (map fst (map_erase (node_index i) (data ?tr)))"
          by (rule list_all_keys_erase)
        then have la': "list_all (\<lambda>p. 0 \<le> p \<and> p < int n) (positions t m')"
          by (simp only: p')
        from map_erase_last [OF nl]
        have ne: "map_erase (node_index i) (data ?tr) \<noteq> []"
          and l: "last (map_erase (node_index i) (data ?tr)) = last (data ?tr)"
          by simp_all
        from ne have dne: "data ?tr \<noteq> []" by (auto simp: map_erase_Nil)
        from ne l dne have "last (positions t m') = last (positions t m)"
          unfolding p' by (simp add: positions_def last_map)
        with la' lst ne p'
        show "list_all (\<lambda>p. 0 \<le> p \<and> p < int n) (positions t m') \<and>
              (0 < n \<longrightarrow> positions t m' \<noteq> [] \<and> last (positions t m') = int n - 1) \<and>
              (False \<longrightarrow> positions t m' = map int [0..<n])"
          by simp
      qed
      with True Trim_op show ?thesis by simp
    qed
  qed
  show "trajectory_can_append t m' \<longrightarrow> \<not> is_insert_into t x \<and> \<not> is_trailing_trim t x m"
  proof
    assume f': "trajectory_can_append t m'"
    show "\<not> is_insert_into t x \<and> \<not> is_trailing_trim t x m"
    proof (cases x)
      case (Append_op t' d)
      then show ?thesis by simp
    next
      case (Insert_op i d)
      with s have "Insert i d m = Inr m'" by simp
      from Insert_flag [OF this, of t] f' Insert_op show ?thesis by simp
    next
      case (Trim_op i)
      with s have trim: "Trim i m = Inr m'" by simp
      show ?thesis
      proof (cases "trajectory_id i = t")
        case False
        with Trim_op show ?thesis by simp
      next
        case True
        from Trim_Inr [OF trim] True
        have found: "map_find (node_index i) (data ?tr) \<noteq> []" by simp
        from Trim_flag [OF trim, of t] f' True
        have "tl (map_find (node_index i) (data ?tr)) \<noteq> []" by simp
        with is_max_position_iff [OF inv found] Trim_op show ?thesis by simp
      qed
    qed
  qed
qed

lemma history_inv_empty: "history_inv t 0 True MapById_empty"
  by (simp add: history_inv_def positions_empty)

lemma run_history:
  assumes "run xs MapById_empty = Inr m"
  shows "history_inv t (appends_to t xs) (\<not> list_ex (is_trim_of t) xs) m \<and>
         (trajectory_can_append t m \<longrightarrow> appends_only t xs MapById_empty)"
  using assms
proof (induction xs arbitrary: m rule: rev_induct)
  case Nil
  then show ?case by (simp add: appends_to_def history_inv_empty)
next
  case (snoc x xs)
  from snoc.prems obtain m1 where r: "run xs MapById_empty = Inr m1"
    and s: "apply_operation x m1 = Inr m"
    by (auto simp: run_snoc split: sum.splits)
  from snoc.IH [OF r]
  have h: "history_inv t (appends_to t xs) (\<not> list_ex (is_trim_of t) xs) m1"
    and a: "trajectory_can_append t m1 \<longrightarrow> appends_only t xs MapById_empty"
    by simp_all
  have inv: "MapById_inv m1" by (rule run_inv [OF r inv_empty])
  note st = history_step [OF inv h s]
  have "history_inv t (appends_to t (xs @ [x])) (\<not> list_ex (is_trim_of t) (xs @ [x])) m"
    using st(1) by (simp add: appends_to_snoc)
  moreover have "appends_only t (xs @ [x]) MapById_empty" if f: "trajectory_can_append t m"
  proof -
    from apply_operation_locked [OF s, of t] f have "trajectory_can_append t m1" by blast
    with a st(2) f show ?thesis by (simp add: appends_only_snoc [OF r])
  qed
  ultimately show ?case by blast
qed

text \<open>Unfolding the operations on a concrete container.\<close>

lemmas eval_defs = Append_def Insert_def Trim_def at_def map_subscript_def map_find_def
  map_at_def map_emplace_def map_erase_def MapByIndex_default_def MapById_empty_def
  GetIndex_def INT_MAX_def Let_def

lemmas eval_obs = trajectory_can_append_def positions_def is_max_position_def MapById_inv_def
  sorted_keys_def entry_def next_position_def

lemma failure_of_violation:
  "(entry m i \<noteq> None \<longrightarrow> Insert i d m = Inl CHECK_failed) \<and>
   (entry m i = None \<longrightarrow>
      at i m = Inl out_of_range \<and>
      Trim i m = (if map_of (trajectories m) (trajectory_id i) = None
                  then Inl out_of_range else Inl CHECK_failed))"
proof (intro conjI impI)
  assume "entry m i \<noteq> None"
  then have "map_find (node_index i) (data (map_subscript (trajectory_id i) (trajectories m))) \<noteq> []"
    by (simp add: entry_subscript map_find_Nil_iff)
  then show "Insert i d m = Inl CHECK_failed"
    by (simp add: Insert_def map_emplace_def GetIndex_def Let_def)
next
  assume "entry m i = None"
  then show "at i m = Inl out_of_range" by (simp add: at_entry)
next
  assume e: "entry m i = None"
  show "Trim i m = (if map_of (trajectories m) (trajectory_id i) = None
                  then Inl out_of_range else Inl CHECK_failed)"
  proof (cases "map_of (trajectories m) (trajectory_id i)")
    case None
    then show ?thesis by (simp add: Trim_def map_at_eq)
  next
    case (Some tr)
    with e have "map_find (node_index i) (data tr) = []"
      by (simp add: entry_def map_find_Nil_iff)
    with Some show ?thesis by (simp add: Trim_def map_at_eq GetIndex_def)
  qed
qed

section \<open>The claims\<close>

text \<open>
  Claim C1, as stated: in every state reached by \<^verbatim>\<open>Append\<close>, \<^verbatim>\<open>Insert\<close> and \<^verbatim>\<open>Trim\<close>
  calls, a flag that is true means that the positions of the trajectory form a contiguous
  run starting at 0.  It fails: \<^verbatim>\<open>Trim\<close> clears the flag only when it removes the largest
  position, so after two appends and a trim of position 0 the flag is true and the only
  position is 1.
\<close>

theorem C1_counterexample:
  "run [Append_op 0 ''a'', Append_op 0 ''b'', Trim_op \<lparr>trajectory_id = 0, node_index = 0\<rparr>]
       MapById_empty
     = Inr \<lparr>trajectories = [(0, \<lparr>can_append = True, data = [(1, ''b'')]\<rparr>)]\<rparr>
   \<and> trajectory_can_append 0 \<lparr>trajectories = [(0, \<lparr>can_append = True, data = [(1, ''b'')]\<rparr>)]\<rparr>
   \<and> \<not> contiguous_from_0
          (positions 0 \<lparr>trajectories = [(0, \<lparr>can_append = True, data = [(1, ''b'')]\<rparr>)]\<rparr>)"
  by (simp add: eval_obs eval_defs contiguous_from_0_def)

text \<open>
  Claim C1, amended.  In every state that a sequence of \<^verbatim>\<open>Append\<close>, \<^verbatim>\<open>Insert\<close> and \<^verbatim>\<open>Trim\<close>
  calls reaches from the empty container, a flag that is true means that the trajectory
  was built by appends only, with no insert into it and no trim of its trailing element;
  its positions lie in \<open>0, \<dots>, n - 1\<close> and include \<open>n - 1\<close>, where \<open>n\<close> is the number of
  appends to it; and they are the contiguous run \<open>0, \<dots>, n - 1\<close> when no entry of the
  trajectory has been trimmed.
\<close>

theorem C1_can_append_history:
  assumes "run xs MapById_empty = Inr m" and "trajectory_can_append t m"
  shows "appends_only t xs MapById_empty \<and>
         list_all (\<lambda>p. 0 \<le> p \<and> p < int (appends_to t xs)) (positions t m) \<and>
         (0 < appends_to t xs \<longrightarrow>
            positions t m \<noteq> [] \<and> last (positions t m) = int (appends_to t xs) - 1) \<and>
         (\<not> list_ex (is_trim_of t) xs \<longrightarrow>
            contiguous_from_0 (positions t m) \<and> length (positions t m) = appends_to t xs)"
proof -
  from run_history [OF assms(1), of t] assms(2)
  have a: "appends_only t xs MapById_empty"
    and h: "history_inv t (appends_to t xs) (\<not> list_ex (is_trim_of t) xs) m"
    by simp_all
  from h assms(2)
  have la: "list_all (\<lambda>p. 0 \<le> p \<and> p < int (appends_to t xs)) (positions t m)"
    and lst: "0 < appends_to t xs \<longrightarrow>
            positions t m \<noteq> [] \<and> last (positions t m) = int (appends_to t xs) - 1"
    and cont: "\<not> list_ex (is_trim_of t) xs \<longrightarrow> positions t m = map int [0..<appends_to t xs]"
    by (simp_all add: history_inv_def)
  have "contiguous_from_0 (positions t m) \<and> length (positions t m) = appends_to t xs"
    if "\<not> list_ex (is_trim_of t) xs"
  proof -
    from cont that have "positions t m = map int [0..<appends_to t xs]" by simp
    then show ?thesis by (simp add: contiguous_from_0_def)
  qed
  with a la lst show ?thesis by blast
qed

theorem C1_can_append_history_witness:
  "run [Append_op 0 ''a'', Append_op 0 ''b'', Trim_op \<lparr>trajectory_id = 0, node_index = 0\<rparr>]
       MapById_empty
     = Inr \<lparr>trajectories = [(0, \<lparr>can_append = True, data = [(1, ''b'')]\<rparr>)]\<rparr>
   \<and> trajectory_can_append 0 \<lparr>trajectories = [(0, \<lparr>can_append = True, data = [(1, ''b'')]\<rparr>)]\<rparr>
   \<and> appends_only 0
        [Append_op 0 ''a'', Append_op 0 ''b'', Trim_op \<lparr>trajectory_id = 0, node_index = 0\<rparr>]
        MapById_empty
   \<and> appends_to 0
        [Append_op 0 ''a'', Append_op 0 ''b'', Trim_op \<lparr>trajectory_id = 0, node_index = 0\<rparr>] = 2
   \<and> positions 0 \<lparr>trajectories = [(0, \<lparr>can_append = True, data = [(1, ''b'')]\<rparr>)]\<rparr> = [1]
   \<and> run [Append_op 0 ''a'', Append_op 0 ''b''] MapById_empty
     = Inr \<lparr>trajectories = [(0, \<lparr>can_append = True, data = [(0, ''a''), (1, ''b'')]\<rparr>)]\<rparr>
   \<and> \<not> list_ex (is_trim_of 0) [Append_op 0 ''a'', Append_op 0 ''b'']
   \<and> contiguous_from_0
        (positions 0
           \<lparr>trajectories = [(0, \<lparr>can_append = True, data = [(0, ''a''), (1, ''b'')]\<rparr>)]\<rparr>)"
proof -
  let ?xs = "[Append_op 0 ''a'', Append_op 0 ''b'', Trim_op \<lparr>trajectory_id = 0, node_index = 0\<rparr>]"
  let ?m = "\<lparr>trajectories = [(0, \<lparr>can_append = True, data = [(1, ''b'')]\<rparr>)]\<rparr>"
  let ?ys = "[Append_op 0 ''a'', Append_op 0 ''b'']"
  let ?m2 = "\<lparr>trajectories = [(0, \<lparr>can_append = True, data = [(0, ''a''), (1, ''b'')]\<rparr>)]\<rparr>"
  have r: "run ?xs MapById_empty = Inr ?m"
    by (simp add: eval_defs)
  have f: "trajectory_can_append 0 ?m"
    by (simp add: eval_obs eval_defs)
  have n: "appends_to 0 ?xs = 2"
    by (simp add: appends_to_def)
  have p: "positions 0 ?m = [1]"
    by (simp add: eval_obs eval_defs)
  have r2: "run ?ys MapById_empty = Inr ?m2"
    by (simp add: eval_defs)
  have f2: "trajectory_can_append 0 ?m2"
    by (simp add: eval_obs eval_defs)
  have nt: "\<not> list_ex (is_trim_of 0) ?ys"
    by simp
  from C1_can_append_history [OF r f] C1_can_append_history [OF r2 f2] r f n p r2 nt
  show ?thesis by simp
qed

text \<open>
  Claim C2.  The flag of a trajectory goes one way only: once it is false in a state,
  it is false in every state that a sequence of \<^verbatim>\<open>Append\<close>, \<^verbatim>\<open>Insert\<close> and \<^verbatim>\<open>Trim\<close>
  calls reaches from there.
\<close>

theorem C2_can_append_one_way:
  assumes "run xs m = Inr m'" and "\<not> trajectory_can_append t m"
  shows "\<not> trajectory_can_append t m'"
  using assms by (rule run_locked)

theorem C2_can_append_one_way_witness:
  "run [Append_op 0 ''c'', Trim_op \<lparr>trajectory_id = 1, node_index = 7\<rparr>]
       \<lparr>trajectories = [(1, \<lparr>can_append = False, data = [(3, ''a''), (7, ''b'')]\<rparr>)]\<rparr>
     = Inr \<lparr>trajectories = [(0, \<lparr>can_append = True, data = [(0, ''c'')]\<rparr>),
                             (1, \<lparr>can_append = False, data = [(3, ''a'')]\<rparr>)]\<rparr>
   \<and> \<not> trajectory_can_append 1
         \<lparr>trajectories = [(1, \<lparr>can_append = False, data = [(3, ''a''), (7, ''b'')]\<rparr>)]\<rparr>
   \<and> \<not> trajectory_can_append 1
         \<lparr>trajectories = [(0, \<lparr>can_append = True, data = [(0, ''c'')]\<rparr>),
                           (1, \<lparr>can_append = False, data = [(3, ''a'')]\<rparr>)]\<rparr>"
proof -
  let ?m = "\<lparr>trajectories = [(1, \<lparr>can_append = False, data = [(3, ''a''), (7, ''b'')]\<rparr>)]\<rparr>"
  let ?m' = "\<lparr>trajectories = [(0, \<lparr>can_append = True, data = [(0, ''c'')]\<rparr>),
                             (1, \<lparr>can_append = False, data = [(3, ''a'')]\<rparr>)]\<rparr>"
  have r: "run [Append_op 0 ''c'', Trim_op \<lparr>trajectory_id = 1, node_index = 7\<rparr>] ?m = Inr ?m'"
    by (simp add: Append_def Trim_def map_subscript_def map_find_def map_at_def map_emplace_def
        map_erase_def MapByIndex_default_def GetIndex_def INT_MAX_def Let_def)
  have l: "\<not> trajectory_can_append 1 ?m"
    by (simp add: trajectory_can_append_def map_subscript_def map_find_def)
  from C2_can_append_one_way [OF r l] r l show ?thesis by simp
qed

text \<open>
  Claim C3.  A negative trajectory id is to be a fatal contract violation in every
  operation.  \<^verbatim>\<open>Append\<close> checks it (\<open>Append_negative\<close>); \<^verbatim>\<open>Insert\<close> has no such check:
  on the empty container, \<^verbatim>\<open>Insert\<close> of the identifier \<open>(-1, 0)\<close> returns normally and
  leaves a trajectory \<open>-1\<close> with one entry.
\<close>

theorem C3_Insert_negative_trajectory:
  "Insert \<lparr>trajectory_id = - 1, node_index = 0\<rparr> ''x'' MapById_empty
     = Inr \<lparr>trajectories = [(- 1, \<lparr>can_append = False, data = [(0, ''x'')]\<rparr>)]\<rparr>"
  by (simp add: Insert_def MapById_empty_def map_subscript_def map_find_def map_emplace_def
      MapByIndex_default_def GetIndex_def Let_def)

text \<open>
  Claim C4.  \<^verbatim>\<open>Trim\<close> at an identifier that has an entry removes that entry and no other.
  The flag of the trajectory is true afterwards exactly when it was true before and the
  position removed was not the largest of the trajectory; after the removal of the largest
  position, \<^verbatim>\<open>Append\<close> to that trajectory fails its \<^verbatim>\<open>CHECK\<close> after any further sequence
  of operations.
\<close>

theorem C4_Trim:
  assumes "MapById_inv m" and "entry m i = Some d0"
  shows "\<exists>m'. Trim i m = Inr m' \<and>
               entry m' = (entry m)(i := None) \<and>
               (trajectory_can_append (trajectory_id i) m' \<longleftrightarrow>
                  trajectory_can_append (trajectory_id i) m \<and>
                  \<not> is_max_position (trajectory_id i) (node_index i) m) \<and>
               (is_max_position (trajectory_id i) (node_index i) m \<longrightarrow>
                  (\<forall>xs m'' d'. run xs m' = Inr m'' \<longrightarrow>
                                 Append (trajectory_id i) d' m'' = Inl CHECK_failed))"
proof -
  let ?tr = "map_subscript (trajectory_id i) (trajectories m)"
  let ?flag = "trajectory_can_append (trajectory_id i) m \<and>
               \<not> is_max_position (trajectory_id i) (node_index i) m"
  let ?m' = "m\<lparr>trajectories :=
                map_put (trajectory_id i)
                  \<lparr>can_append = ?flag, data = map_erase (node_index i) (data ?tr)\<rparr>
                  (trajectories m)\<rparr>"
  have trim: "Trim i m = Inr ?m'" by (rule Trim_success [OF assms])
  have sk: "sorted_keys (data ?tr)" by (rule inv_subscript [OF assms(1)])
  have ent: "entry ?m' = (entry m)(i := None)"
  proof
    fix j
    show "entry ?m' j = ((entry m)(i := None)) j"
    proof (cases "trajectory_id j = trajectory_id i")
      case True
      then have "(j = i) = (node_index j = node_index i)" by auto
      moreover from True have "entry m j = map_of (data ?tr) (node_index j)"
        by (simp add: entry_subscript)
      ultimately show ?thesis using True
        by (simp add: entry_put map_of_erase [OF sk])
    next
      case False
      then have "j \<noteq> i" by auto
      with False show ?thesis by (simp add: entry_put)
    qed
  qed
  have flag: "trajectory_can_append (trajectory_id i) ?m' \<longleftrightarrow> ?flag"
    by (simp add: can_append_put)
  have "\<forall>xs m'' d'. run xs ?m' = Inr m'' \<longrightarrow> Append (trajectory_id i) d' m'' = Inl CHECK_failed"
    if "is_max_position (trajectory_id i) (node_index i) m"
  proof -
    from that flag have "\<not> trajectory_can_append (trajectory_id i) ?m'" by simp
    from locked_forever [OF this] show ?thesis by blast
  qed
  with trim ent flag show ?thesis by blast
qed

theorem C4_Trim_witness:
  "MapById_inv \<lparr>trajectories = [(0, \<lparr>can_append = True, data = [(0, ''a''), (1, ''b'')]\<rparr>)]\<rparr>
   \<and> entry \<lparr>trajectories = [(0, \<lparr>can_append = True, data = [(0, ''a''), (1, ''b'')]\<rparr>)]\<rparr>
        \<lparr>trajectory_id = 0, node_index = 1\<rparr> = Some ''b''
   \<and> is_max_position 0 1
        \<lparr>trajectories = [(0, \<lparr>can_append = True, data = [(0, ''a''), (1, ''b'')]\<rparr>)]\<rparr>
   \<and> Trim \<lparr>trajectory_id = 0, node_index = 1\<rparr>
        \<lparr>trajectories = [(0, \<lparr>can_append = True, data = [(0, ''a''), (1, ''b'')]\<rparr>)]\<rparr>
       = Inr \<lparr>trajectories = [(0, \<lparr>can_append = False, data = [(0, ''a'')]\<rparr>)]\<rparr>
   \<and> Append 0 ''c'' \<lparr>trajectories = [(0, \<lparr>can_append = False, data = [(0, ''a'')]\<rparr>)]\<rparr>
       = Inl CHECK_failed
   \<and> at \<lparr>trajectory_id = 0, node_index = 0\<rparr>
        \<lparr>trajectories = [(0, \<lparr>can_append = False, data = [(0, ''a'')]\<rparr>)]\<rparr> = Inr ''a''"
proof -
  let ?m = "\<lparr>trajectories = [(0, \<lparr>can_append = True, data = [(0, ''a''), (1, ''b'')]\<rparr>)]\<rparr>"
  let ?m' = "\<lparr>trajectories = [(0, \<lparr>can_append = False, data = [(0, ''a'')]\<rparr>)]\<rparr>"
  let ?i = "\<lparr>trajectory_id = 0, node_index = 1\<rparr>"
  have h: "MapById_inv ?m" "entry ?m ?i = Some ''b''"
    by (simp_all add: eval_obs)
  have mx: "is_max_position 0 1 ?m"
    by (simp add: eval_obs eval_defs)
  have tr: "Trim ?i ?m = Inr ?m'"
    by (simp add: eval_defs)
  have a: "at \<lparr>trajectory_id = 0, node_index = 0\<rparr> ?m' = Inr ''a''"
    by (simp add: eval_defs)
  from C4_Trim [OF h] tr mx
  have "\<forall>xs m'' d'. run xs ?m' = Inr m'' \<longrightarrow> Append 0 d' m'' = Inl CHECK_failed"
    by auto
  moreover have "run [] ?m' = Inr ?m'" by simp
  ultimately have "Append 0 ''c'' ?m' = Inl CHECK_failed" by blast
  with h mx tr a show ?thesis by simp
qed

text \<open>
  Claim C5.  \<^verbatim>\<open>Insert\<close> at an identifier that has no entry stores the payload there and
  leaves everything else as it was, sets the flag of the trajectory to false whatever the
  position, and after any further sequence of operations \<^verbatim>\<open>Append\<close> to that trajectory
  fails its \<^verbatim>\<open>CHECK\<close>.
\<close>

theorem C5_Insert_locks:
  assumes "entry m i = None"
  shows "\<exists>m'. Insert i d m = Inr m' \<and>
               entry m' = (entry m)(i \<mapsto> d) \<and>
               \<not> trajectory_can_append (trajectory_id i) m' \<and>
               (\<forall>xs m'' d'. run xs m' = Inr m'' \<longrightarrow>
                              Append (trajectory_id i) d' m'' = Inl CHECK_failed)"
proof -
  let ?tr = "map_subscript (trajectory_id i) (trajectories m)"
  let ?m' = "m\<lparr>trajectories :=
                map_put (trajectory_id i)
                  \<lparr>can_append = False, data = map_put (node_index i) d (data ?tr)\<rparr>
                  (trajectories m)\<rparr>"
  have ins: "Insert i d m = Inr ?m'" by (rule Insert_success [OF assms])
  have ent: "entry ?m' = (entry m)(i \<mapsto> d)"
  proof
    fix j
    show "entry ?m' j = ((entry m)(i \<mapsto> d)) j"
    proof (cases "trajectory_id j = trajectory_id i")
      case True
      then have "(j = i) = (node_index j = node_index i)" by auto
      moreover from True have "entry m j = map_of (data ?tr) (node_index j)"
        by (simp add: entry_subscript)
      ultimately show ?thesis using True
        by (simp add: entry_put map_of_put)
    next
      case False
      then have "j \<noteq> i" by auto
      with False show ?thesis by (simp add: entry_put)
    qed
  qed
  have locked: "\<not> trajectory_can_append (trajectory_id i) ?m'"
    by (simp add: can_append_put)
  from ins ent locked locked_forever [OF locked] show ?thesis by blast
qed

theorem C5_Insert_locks_witness:
  "entry \<lparr>trajectories = [(0, \<lparr>can_append = True, data = [(0, ''a''), (2, ''c'')]\<rparr>)]\<rparr>
         \<lparr>trajectory_id = 0, node_index = 1\<rparr> = None
   \<and> Insert \<lparr>trajectory_id = 0, node_index = 1\<rparr> ''b''
        \<lparr>trajectories = [(0, \<lparr>can_append = True, data = [(0, ''a''), (2, ''c'')]\<rparr>)]\<rparr>
       = Inr \<lparr>trajectories =
                [(0, \<lparr>can_append = False, data = [(0, ''a''), (1, ''b''), (2, ''c'')]\<rparr>)]\<rparr>
   \<and> \<not> is_max_position 0 1
         \<lparr>trajectories =
            [(0, \<lparr>can_append = False, data = [(0, ''a''), (1, ''b''), (2, ''c'')]\<rparr>)]\<rparr>
   \<and> run [Trim_op \<lparr>trajectory_id = 0, node_index = 0\<rparr>]
        \<lparr>trajectories =
           [(0, \<lparr>can_append = False, data = [(0, ''a''), (1, ''b''), (2, ''c'')]\<rparr>)]\<rparr>
       = Inr \<lparr>trajectories = [(0, \<lparr>can_append = False, data = [(1, ''b''), (2, ''c'')]\<rparr>)]\<rparr>
   \<and> Append 0 ''e''
        \<lparr>trajectories = [(0, \<lparr>can_append = False, data = [(1, ''b''), (2, ''c'')]\<rparr>)]\<rparr>
       = Inl CHECK_failed"
proof -
  let ?m0 = "\<lparr>trajectories = [(0, \<lparr>can_append = True, data = [(0, ''a''), (2, ''c'')]\<rparr>)]\<rparr>"
  let ?m1 = "\<lparr>trajectories =
               [(0, \<lparr>can_append = False, data = [(0, ''a''), (1, ''b''), (2, ''c'')]\<rparr>)]\<rparr>"
  let ?m2 = "\<lparr>trajectories = [(0, \<lparr>can_append = False, data = [(1, ''b''), (2, ''c'')]\<rparr>)]\<rparr>"
  let ?i = "\<lparr>trajectory_id = 0, node_index = 1\<rparr>"
  have e: "entry ?m0 ?i = None" by (simp add: entry_def)
  have ins: "Insert ?i ''b'' ?m0 = Inr ?m1"
    by (simp add: Insert_def map_subscript_def map_find_def map_emplace_def GetIndex_def Let_def)
  have nm: "\<not> is_max_position 0 1 ?m1"
    by (simp add: is_max_position_def positions_def map_subscript_def map_find_def)
  have r: "run [Trim_op \<lparr>trajectory_id = 0, node_index = 0\<rparr>] ?m1 = Inr ?m2"
    by (simp add: Trim_def map_at_def map_find_def map_erase_def GetIndex_def Let_def)
  from C5_Insert_locks [OF e, of "''b''"] ins
  have "\<forall>xs m'' d'. run xs ?m1 = Inr m'' \<longrightarrow> Append (trajectory_id ?i) d' m'' = Inl CHECK_failed"
    by auto
  with r have "Append 0 ''e'' ?m2 = Inl CHECK_failed" by fastforce
  with e ins nm r show ?thesis by simp
qed

text \<open>
  Claim C6.  For a trajectory id \<open>t \<ge> 0\<close> whose flag is true, \<^verbatim>\<open>Append\<close> stores the payload
  at one more than the largest position of the trajectory (at 0 when the trajectory has no
  entry), a position that had no entry, and returns the identifier of \<open>t\<close> and that
  position.  Hence \<open>n\<close> calls of \<^verbatim>\<open>Append\<close> to one trajectory of a fresh container return
  the positions \<open>0, 1, \<dots>, n - 1\<close> in call order.  The hypotheses on \<open>INT_MAX\<close> say that
  \<^verbatim>\<open>rbegin()->first + 1\<close> does not overflow the type \<^verbatim>\<open>int\<close>, which is undefined behaviour
  in C++; by \<open>run_history\<close> a trajectory whose flag is true has its positions below the
  number of appends made to it, so the overflow needs \<open>2\<^sup>3\<^sup>1\<close> entries in one trajectory.
  \<open>MapById_inv\<close> is the invariant of \<^verbatim>\<open>std::map\<close>; it holds of the empty container and
  every operation keeps it (\<open>inv_empty\<close>, \<open>run_inv\<close>).
\<close>

theorem C6_Append_position:
  "(MapById_inv m \<and> 0 \<le> t \<and> trajectory_can_append t m \<and>
    list_all (\<lambda>p. p < INT_MAX) (positions t m) \<longrightarrow>
      (\<exists>m'. Append t d m = Inr (\<lparr>trajectory_id = t, node_index = next_position t m\<rparr>, m') \<and>
             entry m \<lparr>trajectory_id = t, node_index = next_position t m\<rparr> = None \<and>
             entry m' = (entry m)(\<lparr>trajectory_id = t, node_index = next_position t m\<rparr> \<mapsto> d))) \<and>
   (0 \<le> t \<and> length ds \<le> 2147483648 \<longrightarrow>
      (\<exists>m'. append_all t ds MapById_empty =
               Inr (map (\<lambda>j. \<lparr>trajectory_id = t, node_index = int j\<rparr>) [0..<length ds], m')))"
proof (intro conjI impI)
  assume "MapById_inv m \<and> 0 \<le> t \<and> trajectory_can_append t m \<and>
    list_all (\<lambda>p. p < INT_MAX) (positions t m)"
  then have a: "MapById_inv m" "0 \<le> t" "trajectory_can_append t m"
    "list_all (\<lambda>p. p < INT_MAX) (positions t m)" by simp_all
  from Append_entry [OF a, of d]
  show "\<exists>m'. Append t d m = Inr (\<lparr>trajectory_id = t, node_index = next_position t m\<rparr>, m') \<and>
             entry m \<lparr>trajectory_id = t, node_index = next_position t m\<rparr> = None \<and>
             entry m' = (entry m)(\<lparr>trajectory_id = t, node_index = next_position t m\<rparr> \<mapsto> d)"
    by blast
next
  assume b: "0 \<le> t \<and> length ds \<le> 2147483648"
  from b append_all_from [OF inv_empty _ can_append_empty, of t 0 ds]
  show "\<exists>m'. append_all t ds MapById_empty =
               Inr (map (\<lambda>j. \<lparr>trajectory_id = t, node_index = int j\<rparr>) [0..<length ds], m')"
    by (simp add: positions_empty)
qed

theorem C6_Append_position_witness:
  "MapById_inv \<lparr>trajectories = [(0, \<lparr>can_append = True, data = [(1, ''b''), (4, ''e'')]\<rparr>)]\<rparr>
   \<and> trajectory_can_append 0
        \<lparr>trajectories = [(0, \<lparr>can_append = True, data = [(1, ''b''), (4, ''e'')]\<rparr>)]\<rparr>
   \<and> list_all (\<lambda>p. p < INT_MAX)
        (positions 0 \<lparr>trajectories = [(0, \<lparr>can_append = True, data = [(1, ''b''), (4, ''e'')]\<rparr>)]\<rparr>)
   \<and> Append 0 ''f''
        \<lparr>trajectories = [(0, \<lparr>can_append = True, data = [(1, ''b''), (4, ''e'')]\<rparr>)]\<rparr>
       = Inr (\<lparr>trajectory_id = 0, node_index = 5\<rparr>,
              \<lparr>trajectories =
                 [(0, \<lparr>can_append = True, data = [(1, ''b''), (4, ''e''), (5, ''f'')]\<rparr>)]\<rparr>)
   \<and> length [''x'', ''y'', ''z''] \<le> 2147483648
   \<and> append_all 3 [''x'', ''y'', ''z''] MapById_empty
       = Inr ([\<lparr>trajectory_id = 3, node_index = 0\<rparr>, \<lparr>trajectory_id = 3, node_index = 1\<rparr>,
               \<lparr>trajectory_id = 3, node_index = 2\<rparr>],
              \<lparr>trajectories =
                 [(3, \<lparr>can_append = True, data = [(0, ''x''), (1, ''y''), (2, ''z'')]\<rparr>)]\<rparr>)"
proof -
  let ?m = "\<lparr>trajectories = [(0, \<lparr>can_append = True, data = [(1, ''b''), (4, ''e'')]\<rparr>)]\<rparr>"
  have h: "MapById_inv ?m" "trajectory_can_append 0 ?m"
    "list_all (\<lambda>p. p < INT_MAX) (positions 0 ?m)"
    by (simp_all add: eval_obs eval_defs)
  have np: "next_position 0 ?m = 5"
    by (simp add: eval_obs eval_defs)
  have a: "Append 0 ''f'' ?m
       = Inr (\<lparr>trajectory_id = 0, node_index = 5\<rparr>,
              \<lparr>trajectories =
                 [(0, \<lparr>can_append = True, data = [(1, ''b''), (4, ''e''), (5, ''f'')]\<rparr>)]\<rparr>)"
    by (simp add: eval_defs)
  have b: "append_all 3 [''x'', ''y'', ''z''] MapById_empty
       = Inr ([\<lparr>trajectory_id = 3, node_index = 0\<rparr>, \<lparr>trajectory_id = 3, node_index = 1\<rparr>,
               \<lparr>trajectory_id = 3, node_index = 2\<rparr>],
              \<lparr>trajectories =
                 [(3, \<lparr>can_append = True, data = [(0, ''x''), (1, ''y''), (2, ''z'')]\<rparr>)]\<rparr>)"
    by (simp add: eval_defs)
  from h np a b C6_Append_position [of ?m 0 "''f''" "[''x'', ''y'', ''z'']"]
  show ?thesis by simp
qed

text \<open>
  Claim C7.  The traversal from \<^verbatim>\<open>begin()\<close> to \<^verbatim>\<open>end()\<close> of a container yields the
  identifiers in strictly ascending order of \<^verbatim>\<open>operator<\<close> (trajectory ids ascending,
  positions ascending within a trajectory), each identifier once, and the pairs it
  yields are the entries of the container: a trajectory without entries contributes
  nothing.  A container with positions 0 and 1 in trajectory 0 and position 0 in
  trajectory 2 yields \<open>(0,0), (0,1), (2,0)\<close>.
\<close>

theorem C7_iteration_order:
  "(MapById_inv m \<longrightarrow>
      (\<exists>xs. elements m = Inr xs \<and>
            sorted_wrt NodeId_less (map fst xs) \<and>
            distinct (map fst xs) \<and>
            (\<forall>i d. (i, d) \<in> set xs \<longleftrightarrow> entry m i = Some d))) \<and>
   elements \<lparr>trajectories = [(0, \<lparr>can_append = f, data = [(0, a), (1, b)]\<rparr>),
                              (2, \<lparr>can_append = g, data = [(0, c)]\<rparr>)]\<rparr>
     = Inr [(\<lparr>trajectory_id = 0, node_index = 0\<rparr>, a),
            (\<lparr>trajectory_id = 0, node_index = 1\<rparr>, b),
            (\<lparr>trajectory_id = 2, node_index = 0\<rparr>, c)]"
proof (intro conjI impI)
  assume inv: "MapById_inv m"
  then have s: "sorted_wrt NodeId_less (map fst (flatten (trajectories m)))"
    by (simp add: MapById_inv_def sorted_flatten)
  from s have "distinct (map fst (flatten (trajectories m)))" by (rule NodeId_sorted_distinct)
  with s flatten_entry [OF inv] elements_flatten [of m]
  show "\<exists>xs. elements m = Inr xs \<and> sorted_wrt NodeId_less (map fst xs) \<and>
            distinct (map fst xs) \<and> (\<forall>i d. (i, d) \<in> set xs \<longleftrightarrow> entry m i = Some d)"
    by blast
qed (simp add: elements_flatten flatten_def tag_def)

theorem C7_iteration_order_witness:
  "MapById_inv \<lparr>trajectories = [(0, \<lparr>can_append = True, data = [(0, ''a''), (1, ''b'')]\<rparr>),
                                  (1, \<lparr>can_append = False, data = []\<rparr>),
                                  (2, \<lparr>can_append = True, data = [(0, ''c'')]\<rparr>)]\<rparr>
   \<and> elements \<lparr>trajectories = [(0, \<lparr>can_append = True, data = [(0, ''a''), (1, ''b'')]\<rparr>),
                                  (1, \<lparr>can_append = False, data = []\<rparr>),
                                  (2, \<lparr>can_append = True, data = [(0, ''c'')]\<rparr>)]\<rparr>
       = Inr [(\<lparr>trajectory_id = 0, node_index = 0\<rparr>, ''a''),
              (\<lparr>trajectory_id = 0, node_index = 1\<rparr>, ''b''),
              (\<lparr>trajectory_id = 2, node_index = 0\<rparr>, ''c'')]
   \<and> sorted_wrt NodeId_less
        [\<lparr>trajectory_id = 0, node_index = 0\<rparr>, \<lparr>trajectory_id = 0, node_index = 1\<rparr>,
         \<lparr>trajectory_id = 2, node_index = 0\<rparr>]"
proof -
  let ?m = "\<lparr>trajectories = [(0, \<lparr>can_append = True, data = [(0, ''a''), (1, ''b'')]\<rparr>),
                                  (1, \<lparr>can_append = False, data = []\<rparr>),
                                  (2, \<lparr>can_append = True, data = [(0, ''c'')]\<rparr>)]\<rparr>"
  have inv: "MapById_inv ?m" by (simp add: eval_obs)
  have it: "elements ?m = Inr [(\<lparr>trajectory_id = 0, node_index = 0\<rparr>, ''a''),
              (\<lparr>trajectory_id = 0, node_index = 1\<rparr>, ''b''),
              (\<lparr>trajectory_id = 2, node_index = 0\<rparr>, ''c'')]"
    by (simp add: elements_def begin_it_def end_it_def ConstIterator_def EndIterator_def
        AdvanceToValidDataIterator_def iterate.simps iterator_eq_def deref_def increment_def)
  from inv it C7_iteration_order [of ?m True "''a''" "''b''" True "''c''"]
  show ?thesis by auto
qed

text \<open>
  Claim C8, as stated: \<^verbatim>\<open>Trim\<close> and \<^verbatim>\<open>at\<close> at an identifier that has no entry abort.  It
  fails: both look the trajectory up with \<^verbatim>\<open>std::map::at\<close>, and \<^verbatim>\<open>at\<close> looks the position
  up with it too, so \<^verbatim>\<open>at\<close> at a free position and \<^verbatim>\<open>Trim\<close> in a trajectory that does not
  exist throw \<^verbatim>\<open>std::out_of_range\<close> and do not abort.
\<close>

theorem C8_counterexample:
  "entry \<lparr>trajectories = [(0, \<lparr>can_append = True, data = [(0, ''a'')]\<rparr>)]\<rparr>
         \<lparr>trajectory_id = 0, node_index = 5\<rparr> = None
   \<and> at \<lparr>trajectory_id = 0, node_index = 5\<rparr>
        \<lparr>trajectories = [(0, \<lparr>can_append = True, data = [(0, ''a'')]\<rparr>)]\<rparr> = Inl out_of_range
   \<and> \<not> aborts (at \<lparr>trajectory_id = 0, node_index = 5\<rparr>
                   \<lparr>trajectories = [(0, \<lparr>can_append = True, data = [(0, ''a'')]\<rparr>)]\<rparr>)
   \<and> entry \<lparr>trajectories = [(0, \<lparr>can_append = True, data = [(0, ''a'')]\<rparr>)]\<rparr>
         \<lparr>trajectory_id = 4, node_index = 0\<rparr> = None
   \<and> Trim \<lparr>trajectory_id = 4, node_index = 0\<rparr>
        \<lparr>trajectories = [(0, \<lparr>can_append = True, data = [(0, ''a'')]\<rparr>)]\<rparr> = Inl out_of_range
   \<and> \<not> aborts (Trim \<lparr>trajectory_id = 4, node_index = 0\<rparr>
                   \<lparr>trajectories = [(0, \<lparr>can_append = True, data = [(0, ''a'')]\<rparr>)]\<rparr>)"
  by (simp add: entry_def aborts_def eval_defs)

text \<open>
  Claim C8, amended.  \<^verbatim>\<open>Insert\<close> at an identifier that has an entry aborts on its
  \<^verbatim>\<open>CHECK\<close>.  At an identifier that has no entry, \<^verbatim>\<open>Trim\<close> aborts on its \<^verbatim>\<open>CHECK\<close> when
  the trajectory exists, and throws \<^verbatim>\<open>std::out_of_range\<close> when the trajectory does not
  exist; \<^verbatim>\<open>at\<close> throws \<^verbatim>\<open>std::out_of_range\<close> in both cases.  None of the calls returns a
  value; those that throw do not abort.
\<close>

theorem C8_contract_violations:
  "(entry m i \<noteq> None \<longrightarrow>
      Insert i d m = Inl CHECK_failed \<and> aborts (Insert i d m)) \<and>
   (entry m i = None \<longrightarrow>
      at i m = Inl out_of_range \<and> \<not> aborts (at i m) \<and>
      Trim i m = (if map_of (trajectories m) (trajectory_id i) = None
                  then Inl out_of_range else Inl CHECK_failed) \<and>
      aborts (Trim i m) = (map_of (trajectories m) (trajectory_id i) \<noteq> None))"
  using failure_of_violation [of m i d] by (simp add: aborts_def)

theorem C8_contract_violations_witness:
  "entry \<lparr>trajectories = [(0, \<lparr>can_append = True, data = [(0, ''a'')]\<rparr>)]\<rparr>
         \<lparr>trajectory_id = 0, node_index = 0\<rparr> \<noteq> None
   \<and> Insert \<lparr>trajectory_id = 0, node_index = 0\<rparr> ''b''
        \<lparr>trajectories = [(0, \<lparr>can_append = True, data = [(0, ''a'')]\<rparr>)]\<rparr> = Inl CHECK_failed
   \<and> entry \<lparr>trajectories = [(0, \<lparr>can_append = True, data = [(0, ''a'')]\<rparr>)]\<rparr>
         \<lparr>trajectory_id = 0, node_index = 5\<rparr> = None
   \<and> at \<lparr>trajectory_id = 0, node_index = 5\<rparr>
        \<lparr>trajectories = [(0, \<lparr>can_append = True, data = [(0, ''a'')]\<rparr>)]\<rparr> = Inl out_of_range
   \<and> Trim \<lparr>trajectory_id = 0, node_index = 5\<rparr>
        \<lparr>trajectories = [(0, \<lparr>can_append = True, data = [(0, ''a'')]\<rparr>)]\<rparr> = Inl CHECK_failed
   \<and> entry \<lparr>trajectories = [(0, \<lparr>can_append = True, data = [(0, ''a'')]\<rparr>)]\<rparr>
         \<lparr>trajectory_id = 4, node_index = 0\<rparr> = None
   \<and> at \<lparr>trajectory_id = 4, node_index = 0\<rparr>
        \<lparr>trajectories = [(0, \<lparr>can_append = True, data = [(0, ''a'')]\<rparr>)]\<rparr> = Inl out_of_range
   \<and> Trim \<lparr>trajectory_id = 4, node_index = 0\<rparr>
        \<lparr>trajectories = [(0, \<lparr>can_append = True, data = [(0, ''a'')]\<rparr>)]\<rparr> = Inl out_of_range"
proof -
  let ?m = "\<lparr>trajectories = [(0, \<lparr>can_append = True, data = [(0, ''a'')]\<rparr>)]\<rparr>"
  have e1: "entry ?m \<lparr>trajectory_id = 0, node_index = 0\<rparr> \<noteq> None"
    and e2: "entry ?m \<lparr>trajectory_id = 0, node_index = 5\<rparr> = None"
    and e3: "entry ?m \<lparr>trajectory_id = 4, node_index = 0\<rparr> = None"
    by (simp_all add: entry_def)
  from e1 e2 e3
    C8_contract_violations [of ?m "\<lparr>trajectory_id = 0, node_index = 0\<rparr>" "''b''"]
    C8_contract_violations [of ?m "\<lparr>trajectory_id = 0, node_index = 5\<rparr>" "''b''"]
    C8_contract_violations [of ?m "\<lparr>trajectory_id = 4, node_index = 0\<rparr>" "''b''"]
  show ?thesis by simp
qed

text \<open>
  Claim C9.  For a trajectory id \<open>t \<ge> 0\<close> whose flag is true and any payload \<open>v\<close>, right
  after \<^verbatim>\<open>Append(t, v)\<close> has returned \<open>i\<close>, \<^verbatim>\<open>at(i)\<close> returns \<open>v\<close>, and every identifier
  that \<^verbatim>\<open>at\<close> found before is found with the same payload.  The hypothesis on \<open>INT_MAX\<close>
  says that \<^verbatim>\<open>rbegin()->first + 1\<close> does not overflow.
\<close>

theorem C9_at_after_Append:
  assumes "MapById_inv m" and "0 \<le> t" and "trajectory_can_append t m"
    and "list_all (\<lambda>p. p < INT_MAX) (positions t m)"
  shows "\<exists>i m'. Append t v m = Inr (i, m') \<and> at i m' = Inr v \<and>
                 (\<forall>j d. at j m = Inr d \<longrightarrow> at j m' = Inr d)"
proof -
  let ?i = "\<lparr>trajectory_id = t, node_index = next_position t m\<rparr>"
  from Append_entry [OF assms, of v]
  obtain m' where app: "Append t v m = Inr (?i, m')" and none: "entry m ?i = None"
    and ent: "entry m' = (entry m)(?i \<mapsto> v)"
    by blast
  from ent have "at ?i m' = Inr v" by (simp add: at_entry)
  moreover have "at j m' = Inr d" if "at j m = Inr d" for j d
  proof -
    from that have "entry m j = Some d" by (simp add: at_entry split: option.splits)
    with none have "j \<noteq> ?i" by auto
    with \<open>entry m j = Some d\<close> ent show ?thesis by (simp add: at_entry)
  qed
  ultimately show ?thesis using app by blast
qed

theorem C9_at_after_Append_witness:
  "MapById_inv \<lparr>trajectories = [(0, \<lparr>can_append = True, data = [(1, ''b''), (4, ''e'')]\<rparr>)]\<rparr>
   \<and> trajectory_can_append 0
        \<lparr>trajectories = [(0, \<lparr>can_append = True, data = [(1, ''b''), (4, ''e'')]\<rparr>)]\<rparr>
   \<and> list_all (\<lambda>p. p < INT_MAX)
        (positions 0 \<lparr>trajectories = [(0, \<lparr>can_append = True, data = [(1, ''b''), (4, ''e'')]\<rparr>)]\<rparr>)
   \<and> Append 0 ''f''
        \<lparr>trajectories = [(0, \<lparr>can_append = True, data = [(1, ''b''), (4, ''e'')]\<rparr>)]\<rparr>
       = Inr (\<lparr>trajectory_id = 0, node_index = 5\<rparr>,
              \<lparr>trajectories =
                 [(0, \<lparr>can_append = True, data = [(1, ''b''), (4, ''e''), (5, ''f'')]\<rparr>)]\<rparr>)
   \<and> at \<lparr>trajectory_id = 0, node_index = 5\<rparr>
        \<lparr>trajectories =
           [(0, \<lparr>can_append = True, data = [(1, ''b''), (4, ''e''), (5, ''f'')]\<rparr>)]\<rparr> = Inr ''f''
   \<and> at \<lparr>trajectory_id = 0, node_index = 1\<rparr>
        \<lparr>trajectories = [(0, \<lparr>can_append = True, data = [(1, ''b''), (4, ''e'')]\<rparr>)]\<rparr> = Inr ''b''
   \<and> at \<lparr>trajectory_id = 0, node_index = 1\<rparr>
        \<lparr>trajectories =
           [(0, \<lparr>can_append = True, data = [(1, ''b''), (4, ''e''), (5, ''f'')]\<rparr>)]\<rparr> = Inr ''b''"
proof -
  let ?m = "\<lparr>trajectories = [(0, \<lparr>can_append = True, data = [(1, ''b''), (4, ''e'')]\<rparr>)]\<rparr>"
  let ?m' = "\<lparr>trajectories =
               [(0, \<lparr>can_append = True, data = [(1, ''b''), (4, ''e''), (5, ''f'')]\<rparr>)]\<rparr>"
  have h: "MapById_inv ?m" "0 \<le> (0::int)" "trajectory_can_append 0 ?m"
    "list_all (\<lambda>p. p < INT_MAX) (positions 0 ?m)"
    by (simp_all add: eval_obs eval_defs)
  have a: "Append 0 ''f'' ?m = Inr (\<lparr>trajectory_id = 0, node_index = 5\<rparr>, ?m')"
    by (simp add: eval_defs)
  have old: "at \<lparr>trajectory_id = 0, node_index = 1\<rparr> ?m = Inr ''b''"
    by (simp add: eval_defs)
  from C9_at_after_Append [OF h, of "''f''"] a
  have new: "at \<lparr>trajectory_id = 0, node_index = 5\<rparr> ?m' = Inr ''f''"
    and kept: "\<forall>j d. at j ?m = Inr d \<longrightarrow> at j ?m' = Inr d"
    by auto
  from kept old have "at \<lparr>trajectory_id = 0, node_index = 1\<rparr> ?m' = Inr ''b''" by blast
  with h a old new show ?thesis by simp
qed

text \<open>
  Claim C10.  \<^verbatim>\<open>Trim\<close> of an entry whose position is not the largest of its trajectory
  leaves the flag of every trajectory as it was.  On a fresh container: two calls of
  \<^verbatim>\<open>Append\<close> to trajectory 0 return positions 0 and 1, \<^verbatim>\<open>Trim\<close> of position 0 leaves the
  flag true, and the next \<^verbatim>\<open>Append\<close> returns position 2.
\<close>

theorem C10_Trim_below_max:
  "(MapById_inv m \<and> entry m i \<noteq> None \<and>
    \<not> is_max_position (trajectory_id i) (node_index i) m \<longrightarrow>
      (\<exists>m'. Trim i m = Inr m' \<and>
             (\<forall>t. trajectory_can_append t m' = trajectory_can_append t m))) \<and>
   Append 0 a MapById_empty
     = Inr (\<lparr>trajectory_id = 0, node_index = 0\<rparr>,
            \<lparr>trajectories = [(0, \<lparr>can_append = True, data = [(0, a)]\<rparr>)]\<rparr>) \<and>
   Append 0 b \<lparr>trajectories = [(0, \<lparr>can_append = True, data = [(0, a)]\<rparr>)]\<rparr>
     = Inr (\<lparr>trajectory_id = 0, node_index = 1\<rparr>,
            \<lparr>trajectories = [(0, \<lparr>can_append = True, data = [(0, a), (1, b)]\<rparr>)]\<rparr>) \<and>
   Trim \<lparr>trajectory_id = 0, node_index = 0\<rparr>
        \<lparr>trajectories = [(0, \<lparr>can_append = True, data = [(0, a), (1, b)]\<rparr>)]\<rparr>
     = Inr \<lparr>trajectories = [(0, \<lparr>can_append = True, data = [(1, b)]\<rparr>)]\<rparr> \<and>
   trajectory_can_append 0 \<lparr>trajectories = [(0, \<lparr>can_append = True, data = [(1, b)]\<rparr>)]\<rparr> \<and>
   Append 0 c \<lparr>trajectories = [(0, \<lparr>can_append = True, data = [(1, b)]\<rparr>)]\<rparr>
     = Inr (\<lparr>trajectory_id = 0, node_index = 2\<rparr>,
            \<lparr>trajectories = [(0, \<lparr>can_append = True, data = [(1, b), (2, c)]\<rparr>)]\<rparr>)"
proof (intro conjI impI)
  assume a: "MapById_inv m \<and> entry m i \<noteq> None \<and>
    \<not> is_max_position (trajectory_id i) (node_index i) m"
  then obtain d0 where e: "entry m i = Some d0" by auto
  from a have inv: "MapById_inv m" by simp
  note trim = Trim_success [OF inv e]
  have "trajectory_can_append t
          (m\<lparr>trajectories :=
               map_put (trajectory_id i)
                 \<lparr>can_append =
                    trajectory_can_append (trajectory_id i) m \<and>
                    \<not> is_max_position (trajectory_id i) (node_index i) m,
                  data = map_erase (node_index i)
                           (data (map_subscript (trajectory_id i) (trajectories m)))\<rparr>
                 (trajectories m)\<rparr>)
        = trajectory_can_append t m" for t
    using a by (simp add: can_append_put)
  with trim show "\<exists>m'. Trim i m = Inr m' \<and>
             (\<forall>t. trajectory_can_append t m' = trajectory_can_append t m)"
    by blast
qed (simp_all add: eval_defs trajectory_can_append_def)

theorem C10_Trim_below_max_witness:
  "MapById_inv \<lparr>trajectories = [(0, \<lparr>can_append = True, data = [(0, ''a''), (1, ''b'')]\<rparr>)]\<rparr>
   \<and> entry \<lparr>trajectories = [(0, \<lparr>can_append = True, data = [(0, ''a''), (1, ''b'')]\<rparr>)]\<rparr>
        \<lparr>trajectory_id = 0, node_index = 0\<rparr> \<noteq> None
   \<and> \<not> is_max_position 0 0
        \<lparr>trajectories = [(0, \<lparr>can_append = True, data = [(0, ''a''), (1, ''b'')]\<rparr>)]\<rparr>
   \<and> Trim \<lparr>trajectory_id = 0, node_index = 0\<rparr>
        \<lparr>trajectories = [(0, \<lparr>can_append = True, data = [(0, ''a''), (1, ''b'')]\<rparr>)]\<rparr>
       = Inr \<lparr>trajectories = [(0, \<lparr>can_append = True, data = [(1, ''b'')]\<rparr>)]\<rparr>
   \<and> trajectory_can_append 0
        \<lparr>trajectories = [(0, \<lparr>can_append = True, data = [(0, ''a''), (1, ''b'')]\<rparr>)]\<rparr>
   \<and> trajectory_can_append 0
        \<lparr>trajectories = [(0, \<lparr>can_append = True, data = [(1, ''b'')]\<rparr>)]\<rparr>
   \<and> Append 0 ''c'' \<lparr>trajectories = [(0, \<lparr>can_append = True, data = [(1, ''b'')]\<rparr>)]\<rparr>
       = Inr (\<lparr>trajectory_id = 0, node_index = 2\<rparr>,
              \<lparr>trajectories = [(0, \<lparr>can_append = True, data = [(1, ''b''), (2, ''c'')]\<rparr>)]\<rparr>)"
proof -
  let ?m = "\<lparr>trajectories = [(0, \<lparr>can_append = True, data = [(0, ''a''), (1, ''b'')]\<rparr>)]\<rparr>"
  let ?i = "\<lparr>trajectory_id = 0, node_index = 0\<rparr>"
  have h: "MapById_inv ?m" "entry ?m ?i \<noteq> None" "\<not> is_max_position 0 0 ?m"
    by (simp_all add: eval_obs eval_defs)
  have f: "trajectory_can_append 0 ?m"
    by (simp add: eval_obs eval_defs)
  from h f C10_Trim_below_max [of ?m ?i "''a''" "''b''" "''c''"]
  show ?thesis by auto
qed

end
